theory Spec2Isabelle
  imports Main "HOL-Library.AList" "HOL-Library.Sublist" "HOL-Library.Word"
begin

unbundle bit_operations_syntax

section \<open>JSON values\<close>

text \<open>
  The lesson programs exchange JSON: request bodies are parsed with \<^verbatim>\<open>JSON.parse\<close>, the notes
  file holds a JSON array, responses are built with \<^verbatim>\<open>JSON.stringify\<close>. A JavaScript object
  is an association list in insertion order with distinct keys; writing a property
  (\<^verbatim>\<open>obj[k] = v\<close>, an object literal, a spread) is \<^const>\<open>AList.update\<close>: the value is replaced
  in place when the key exists and appended otherwise. Numbers are kept as integers; the
  programs only test numbers for truthiness.
\<close>

datatype json =
    JNull
  | JBool bool
  | JNum int
  | JStr string
  | JArr "json list"
  | JObj "(string \<times> json) list"

type_synonym jobject = "(string \<times> json) list"

text \<open>\<^verbatim>\<open>{}\<close>, the empty object.\<close>

definition empty_object :: json where
  "empty_object = JObj []"

subsection \<open>A parser for a fragment of JSON\<close>

text \<open>
  \<^verbatim>\<open>JSON.parse\<close> is a built-in of the language, not code of the repository. Every function
  below that calls it takes it as the parameter \<open>parse\<close>, with \<open>None\<close> standing for the
  \<^verbatim>\<open>SyntaxError\<close> it throws, and every theorem holds for any such function. To run the
  functions on concrete requests, \<open>JSON_parse\<close> implements the grammar of JSON texts for
  the fragment without fractions, exponents, \<^verbatim>\<open>\u\<close> escapes and non-ASCII characters:
  white space, the three literals, integers, strings with the two-character escapes,
  arrays and objects (a repeated key keeps its place and takes the last value). The fuel
  bounds the nesting and the number of members read; \<open>JSON_parse\<close> starts with the length
  of the text plus one.
\<close>

definition is_ws :: "char \<Rightarrow> bool" where
  "is_ws c = (c = CHR '' '' \<or> c = CHR 0x09 \<or> c = CHR 0x0A \<or> c = CHR 0x0D)"

definition skip_ws :: "string \<Rightarrow> string" where
  "skip_ws s = dropWhile is_ws s"

definition is_digit :: "char \<Rightarrow> bool" where
  "is_digit c = ((48::nat) \<le> of_char c \<and> of_char c \<le> (57::nat))"

definition digit_val :: "char \<Rightarrow> int" where
  "digit_val c = int (of_char c) - 48"

definition digits_val :: "string \<Rightarrow> int" where
  "digits_val ds = foldl (\<lambda>a d. 10 * a + digit_val d) 0 ds"

definition unescape :: "char \<Rightarrow> char option" where
  "unescape e =
     (if e = CHR 0x22 then Some (CHR 0x22)
      else if e = CHR 0x5C then Some (CHR 0x5C)
      else if e = CHR ''/'' then Some (CHR ''/'')
      else if e = CHR ''b'' then Some (CHR 0x08)
      else if e = CHR ''f'' then Some (CHR 0x0C)
      else if e = CHR ''n'' then Some (CHR 0x0A)
      else if e = CHR ''r'' then Some (CHR 0x0D)
      else if e = CHR ''t'' then Some (CHR 0x09)
      else None)"

text \<open>The characters of a string after its opening quote, up to the closing quote.\<close>

fun parse_string_body :: "string \<Rightarrow> string \<Rightarrow> (string \<times> string) option" where
  "parse_string_body [] acc = None"
| "parse_string_body (c # cs) acc =
     (if c = CHR 0x22 then Some (rev acc, cs)
      else if c = CHR 0x5C then
        (case cs of
           [] \<Rightarrow> None
         | e # r \<Rightarrow>
             (case unescape e of
                None \<Rightarrow> None
              | Some d \<Rightarrow> parse_string_body r (d # acc)))
      else if of_char c < (32::nat) \<or> (127::nat) < of_char c then None
      else parse_string_body cs (c # acc))"

text \<open>An integer: an optional minus sign, then \<^verbatim>\<open>0\<close> or digits without a leading zero.\<close>

definition parse_number :: "string \<Rightarrow> (json \<times> string) option" where
  "parse_number s =
     (let neg = (s \<noteq> [] \<and> hd s = CHR ''-'');
          s1 = (if neg then tl s else s);
          ds = takeWhile is_digit s1;
          r = dropWhile is_digit s1
      in if ds = [] then None
         else if hd ds = CHR ''0'' \<and> length ds > 1 then None
         else if r \<noteq> [] \<and> (hd r = CHR ''.'' \<or> hd r = CHR ''e'' \<or> hd r = CHR ''E'') then None
         else Some (JNum (if neg then - digits_val ds else digits_val ds), r))"

definition parse_literal :: "string \<Rightarrow> (json \<times> string) option" where
  "parse_literal s =
     (if take 4 s = ''null'' then Some (JNull, drop 4 s)
      else if take 4 s = ''true'' then Some (JBool True, drop 4 s)
      else if take 5 s = ''false'' then Some (JBool False, drop 5 s)
      else parse_number s)"

fun parse_value :: "nat \<Rightarrow> string \<Rightarrow> (json \<times> string) option"
  and parse_elements :: "nat \<Rightarrow> string \<Rightarrow> json list \<Rightarrow> (json list \<times> string) option"
  and parse_members :: "nat \<Rightarrow> string \<Rightarrow> jobject \<Rightarrow> (jobject \<times> string) option"
where
  "parse_value 0 s = None"
| "parse_value (Suc n) s =
     (case skip_ws s of
        [] \<Rightarrow> None
      | c # r \<Rightarrow>
          if c = CHR ''{'' then
            (case skip_ws r of
               [] \<Rightarrow> None
             | d # r' \<Rightarrow>
                 if d = CHR ''}'' then Some (JObj [], r')
                 else map_option (\<lambda>(ms, t). (JObj ms, t)) (parse_members n (d # r') []))
          else if c = CHR ''['' then
            (case skip_ws r of
               [] \<Rightarrow> None
             | d # r' \<Rightarrow>
                 if d = CHR '']'' then Some (JArr [], r')
                 else map_option (\<lambda>(vs, t). (JArr vs, t)) (parse_elements n (d # r') []))
          else if c = CHR 0x22 then
            map_option (\<lambda>(str, t). (JStr str, t)) (parse_string_body r [])
          else parse_literal (c # r))"
| "parse_elements 0 s acc = None"
| "parse_elements (Suc n) s acc =
     (case parse_value n s of
        None \<Rightarrow> None
      | Some (v, r) \<Rightarrow>
          (case skip_ws r of
             [] \<Rightarrow> None
           | d # r' \<Rightarrow>
               if d = CHR '','' then parse_elements n r' (acc @ [v])
               else if d = CHR '']'' then Some (acc @ [v], r')
               else None))"
| "parse_members 0 s acc = None"
| "parse_members (Suc n) s acc =
     (case skip_ws s of
        [] \<Rightarrow> None
      | q # r \<Rightarrow>
          if q \<noteq> CHR 0x22 then None
          else
            (case parse_string_body r [] of
               None \<Rightarrow> None
             | Some (k, r1) \<Rightarrow>
                 (case skip_ws r1 of
                    [] \<Rightarrow> None
                  | col # r2 \<Rightarrow>
                      if col \<noteq> CHR '':'' then None
                      else
                        (case parse_value n r2 of
                           None \<Rightarrow> None
                         | Some (v, r3) \<Rightarrow>
                             (case skip_ws r3 of
                                [] \<Rightarrow> None
                              | d # r4 \<Rightarrow>
                                  if d = CHR '','' then parse_members n r4 (AList.update k v acc)
                                  else if d = CHR ''}'' then Some (AList.update k v acc, r4)
                                  else None)))))"

definition JSON_parse :: "string \<Rightarrow> json option" where
  "JSON_parse s =
     (case parse_value (Suc (length s)) s of
        None \<Rightarrow> None
      | Some (v, r) \<Rightarrow> if skip_ws r = [] then Some v else None)"


section \<open>Request-body readers\<close>

text \<open>
  A request body arrives as the events of a readable stream: \<^verbatim>\<open>'data'\<close> with a chunk (taken
  here in its string form, \<^verbatim>\<open>chunk.toString()\<close>), then \<^verbatim>\<open>'end'\<close>, or \<^verbatim>\<open>'error'\<close>. Each reader
  returns a promise and registers handlers that accumulate \<^verbatim>\<open>body\<close> and settle the promise.
  A promise settles once: resolving or rejecting a settled promise changes nothing. A
  destroyed request delivers no further event to its handlers.
\<close>

datatype event = Data string | End | Error string

datatype 'a promise = Pending | Resolved 'a | Rejected string

record reader =
  body :: string
  promise :: "json promise"
  destroyed :: bool

definition reader_init :: reader where
  "reader_init = \<lparr>body = [], promise = Pending, destroyed = False\<rparr>"

definition settle :: "'a promise \<Rightarrow> 'a promise \<Rightarrow> 'a promise" where
  "settle p q = (if p = Pending then q else p)"

text \<open>
  \<^verbatim>\<open>parseJSONBody\<close> of \<^verbatim>\<open>08-post-requests.js\<close>: the \<^verbatim>\<open>'data'\<close> handler appends the chunk and, when
  \<^verbatim>\<open>body.length > 1e6\<close>, destroys the request and rejects; the \<^verbatim>\<open>'end'\<close> handler resolves with
  \<^verbatim>\<open>body ? JSON.parse(body) : {}\<close> and rejects with \<^verbatim>\<open>Invalid JSON\<close> when parsing throws; the
  \<^verbatim>\<open>'error'\<close> handler is \<^verbatim>\<open>reject\<close>.
\<close>

definition parseJSONBody_step ::
  "(string \<Rightarrow> json option) \<Rightarrow> reader \<Rightarrow> event \<Rightarrow> reader" where
  "parseJSONBody_step parse st ev =
     (if destroyed st then st
      else
        (case ev of
           Data chunk \<Rightarrow>
             (let b = body st @ chunk in
              if length b > 1000000
              then st\<lparr>body := b, destroyed := True,
                      promise := settle (promise st) (Rejected ''Payload too large'')\<rparr>
              else st\<lparr>body := b\<rparr>)
         | End \<Rightarrow>
             st\<lparr>promise := settle (promise st)
                  (if body st = [] then Resolved empty_object
                   else (case parse (body st) of
                           Some v \<Rightarrow> Resolved v
                         | None \<Rightarrow> Rejected ''Invalid JSON''))\<rparr>
         | Error e \<Rightarrow> st\<lparr>promise := settle (promise st) (Rejected e)\<rparr>))"

definition parseJSONBody :: "(string \<Rightarrow> json option) \<Rightarrow> event list \<Rightarrow> reader" where
  "parseJSONBody parse evs = foldl (parseJSONBody_step parse) reader_init evs"

text \<open>
  \<^verbatim>\<open>Router.parseBody\<close> of \<^verbatim>\<open>10-custom-router.js\<close> (Part 2): the chunks are appended without a
  test; at \<^verbatim>\<open>'end'\<close> it resolves with \<^verbatim>\<open>body ? JSON.parse(body) : {}\<close>, and with \<^verbatim>\<open>{}\<close> when
  parsing throws. No \<^verbatim>\<open>'error'\<close> handler is registered.
\<close>

definition parseBody2_step ::
  "(string \<Rightarrow> json option) \<Rightarrow> reader \<Rightarrow> event \<Rightarrow> reader" where
  "parseBody2_step parse st ev =
     (if destroyed st then st
      else
        (case ev of
           Data chunk \<Rightarrow> st\<lparr>body := body st @ chunk\<rparr>
         | End \<Rightarrow>
             st\<lparr>promise := settle (promise st)
                  (if body st = [] then Resolved empty_object
                   else (case parse (body st) of
                           Some v \<Rightarrow> Resolved v
                         | None \<Rightarrow> Resolved empty_object))\<rparr>
         | Error e \<Rightarrow> st))"

definition parseBody2 :: "(string \<Rightarrow> json option) \<Rightarrow> event list \<Rightarrow> reader" where
  "parseBody2 parse evs = foldl (parseBody2_step parse) reader_init evs"

text \<open>
  \<^verbatim>\<open>Router.parseBody\<close> of \<^verbatim>\<open>router.js\<close> (Part 3): at \<^verbatim>\<open>'end'\<close> it resolves with
  \<^verbatim>\<open>JSON.parse(body)\<close> whatever the body, and with \<^verbatim>\<open>{}\<close> when parsing throws.
\<close>

definition parseBody3_step ::
  "(string \<Rightarrow> json option) \<Rightarrow> reader \<Rightarrow> event \<Rightarrow> reader" where
  "parseBody3_step parse st ev =
     (if destroyed st then st
      else
        (case ev of
           Data chunk \<Rightarrow> st\<lparr>body := body st @ chunk\<rparr>
         | End \<Rightarrow>
             st\<lparr>promise := settle (promise st)
                  (case parse (body st) of
                     Some v \<Rightarrow> Resolved v
                   | None \<Rightarrow> Resolved empty_object)\<rparr>
         | Error e \<Rightarrow> st))"

definition parseBody3 :: "(string \<Rightarrow> json option) \<Rightarrow> event list \<Rightarrow> reader" where
  "parseBody3 parse evs = foldl (parseBody3_step parse) reader_init evs"

text \<open>A complete body: its chunks in order, then \<^verbatim>\<open>'end'\<close>.\<close>

definition complete :: "string list \<Rightarrow> event list" where
  "complete chunks = map Data chunks @ [End]"

text \<open>The chunks carried by the \<^verbatim>\<open>'data'\<close> events of a stream, in order.\<close>

fun chunks_of :: "event list \<Rightarrow> string list" where
  "chunks_of [] = []"
| "chunks_of (Data c # evs) = c # chunks_of evs"
| "chunks_of (ev # evs) = chunks_of evs"

section \<open>The notes API\<close>

text \<open>
  \<^verbatim>\<open>server.js\<close> of the notes project keeps its notes in \<^verbatim>\<open>data/notes.json\<close>. \<^verbatim>\<open>readNotes\<close>
  returns the parsed file, and \<^verbatim>\<open>[]\<close> when reading or parsing throws; \<^verbatim>\<open>writeNotes\<close> replaces
  the file with the array it is given. The file is modelled by what it parses to: an array
  of note objects (what \<^verbatim>\<open>writeNotes\<close> writes and the project's \<^verbatim>\<open>echo "[]"\<close> creates), or
  nothing readable. A handler takes the file and returns what it does with the response
  and the file afterwards.
\<close>

datatype datafile = Unreadable | Holds "jobject list"

definition readNotes :: "datafile \<Rightarrow> jobject list" where
  "readNotes f = (case f of Unreadable \<Rightarrow> [] | Holds ns \<Rightarrow> ns)"

definition writeNotes :: "jobject list \<Rightarrow> datafile" where
  "writeNotes ns = Holds ns"

text \<open>
  What a handler does: it sends \<^verbatim>\<open>res.json(data, status)\<close>, or an exception leaves it (a
  \<^verbatim>\<open>TypeError\<close> in every case below).
\<close>

datatype result = Respond nat json | Throws

text \<open>
  Reading a property of a value that is not \<^verbatim>\<open>null\<close>: \<open>None\<close> is \<^verbatim>\<open>undefined\<close>. Only objects
  have the properties the handlers read (\<^verbatim>\<open>title\<close>, \<^verbatim>\<open>content\<close>, \<^verbatim>\<open>tags\<close>, \<^verbatim>\<open>id\<close>). Reading a
  property of \<^verbatim>\<open>null\<close> throws, which the handlers below test first.
\<close>

definition get_prop :: "json \<Rightarrow> string \<Rightarrow> json option" where
  "get_prop v k = (case v of JObj ms \<Rightarrow> map_of ms k | _ \<Rightarrow> None)"

text \<open>JavaScript's truthiness, as \<^verbatim>\<open>!title\<close> tests it.\<close>

fun truthy :: "json option \<Rightarrow> bool" where
  "truthy None = False"
| "truthy (Some JNull) = False"
| "truthy (Some (JBool b)) = b"
| "truthy (Some (JNum n)) = (n \<noteq> 0)"
| "truthy (Some (JStr s)) = (s \<noteq> [])"
| "truthy (Some (JArr vs)) = True"
| "truthy (Some (JObj ms)) = True"

text \<open>\<^verbatim>\<open>String.prototype.trim\<close>, on the ASCII white space and line terminators.\<close>

definition js_space :: "char \<Rightarrow> bool" where
  "js_space c = (c = CHR '' '' \<or> c = CHR 0x09 \<or> c = CHR 0x0A \<or> c = CHR 0x0B \<or>
                 c = CHR 0x0C \<or> c = CHR 0x0D)"

definition trim :: "string \<Rightarrow> string" where
  "trim s = rev (dropWhile js_space (rev (dropWhile js_space s)))"

text \<open>\<^verbatim>\<open>Array.isArray(tags) ? tags : [tags]\<close>\<close>

definition as_array :: "json \<Rightarrow> json" where
  "as_array v = (case v of JArr vs \<Rightarrow> JArr vs | _ \<Rightarrow> JArr [v])"

text \<open>\<^verbatim>\<open>n => n.id === req.params.id\<close>: the route parameter is a string.\<close>

definition has_id :: "string \<Rightarrow> jobject \<Rightarrow> bool" where
  "has_id i n = (map_of n ''id'' = Some (JStr i))"

text \<open>\<^verbatim>\<open>Array.prototype.findIndex\<close>: the first index, \<open>None\<close> for \<^verbatim>\<open>-1\<close>.\<close>

fun findIndex :: "('a \<Rightarrow> bool) \<Rightarrow> 'a list \<Rightarrow> nat option" where
  "findIndex P [] = None"
| "findIndex P (x # xs) = (if P x then Some 0 else map_option Suc (findIndex P xs))"

definition not_found :: json where
  "not_found = JObj [(''success'', JBool False), (''error'', JStr ''Note not found'')]"

definition success :: "jobject \<Rightarrow> json" where
  "success n = JObj [(''success'', JBool True), (''data'', JObj n)]"

text \<open>\<^verbatim>\<open>GET /notes/:id\<close>\<close>

definition get_note :: "string \<Rightarrow> datafile \<Rightarrow> result \<times> datafile" where
  "get_note i f =
     (case find (has_id i) (readNotes f) of
        None \<Rightarrow> (Respond 404 not_found, f)
      | Some n \<Rightarrow> (Respond 200 (success n), f))"

text \<open>
  \<^verbatim>\<open>POST /notes\<close>. \<open>nid\<close> is what \<^verbatim>\<open>generateId()\<close> returns, \<open>t1\<close> and \<open>t2\<close> what the two
  \<^verbatim>\<open>new Date().toISOString()\<close> return. Destructuring a \<^verbatim>\<open>null\<close> body throws; so does
  \<^verbatim>\<open>title.trim()\<close> on a truthy title that is not a string.
\<close>

definition post_notes ::
  "string \<Rightarrow> string \<Rightarrow> string \<Rightarrow> json \<Rightarrow> datafile \<Rightarrow> result \<times> datafile" where
  "post_notes nid t1 t2 b f =
     (if b = JNull then (Throws, f)
      else
        (let title = get_prop b ''title'';
             content = get_prop b ''content'';
             tags = (case get_prop b ''tags'' of None \<Rightarrow> JArr [] | Some v \<Rightarrow> v)
         in if \<not> truthy title \<or> \<not> truthy content
            then (Respond 400
                    (JObj [(''success'', JBool False),
                           (''error'', JStr ''Title and content are required'')]), f)
            else
              (let notes = readNotes f in
               case (title, content) of
                 (Some (JStr ti), Some (JStr co)) \<Rightarrow>
                   (let newNote =
                          [(''id'', JStr nid),
                           (''title'', JStr (trim ti)),
                           (''content'', JStr (trim co)),
                           (''tags'', as_array tags),
                           (''createdAt'', JStr t1),
                           (''updatedAt'', JStr t2)]
                    in (Respond 201 (success newNote), writeNotes (notes @ [newNote])))
               | _ \<Rightarrow> (Throws, f))))"

text \<open>\<^verbatim>\<open>PUT /notes/:id\<close>. \<open>t\<close> is what \<^verbatim>\<open>new Date().toISOString()\<close> returns.\<close>

definition put_note :: "string \<Rightarrow> string \<Rightarrow> json \<Rightarrow> datafile \<Rightarrow> result \<times> datafile" where
  "put_note t i b f =
     (let notes = readNotes f in
      case findIndex (has_id i) notes of
        None \<Rightarrow> (Respond 404 not_found, f)
      | Some index \<Rightarrow>
          if b = JNull then (Throws, f)
          else
            (let title = get_prop b ''title'';
                 content = get_prop b ''content'';
                 tags = (case get_prop b ''tags'' of None \<Rightarrow> JArr [] | Some v \<Rightarrow> v)
             in if \<not> truthy title \<or> \<not> truthy content
                then (Respond 400
                        (JObj [(''success'', JBool False),
                               (''error'', JStr ''Title and content are required for PUT'')]), f)
                else
                  (case (title, content) of
                     (Some (JStr ti), Some (JStr co)) \<Rightarrow>
                       (let n = AList.update ''updatedAt'' (JStr t)
                                  (AList.update ''tags'' (as_array tags)
                                    (AList.update ''content'' (JStr (trim co))
                                      (AList.update ''title'' (JStr (trim ti)) (notes ! index))));
                            notes' = notes[index := n]
                        in (Respond 200 (success n), writeNotes notes'))
                   | _ \<Rightarrow> (Throws, f))))"

text \<open>
  \<^verbatim>\<open>PATCH /notes/:id\<close>. \<open>updates\<close> takes, in the order of \<^verbatim>\<open>allowedFields\<close>, the fields of the
  body that are not \<^verbatim>\<open>undefined\<close>; the new note is the old one with the updates spread over
  it, then \<^verbatim>\<open>updatedAt\<close>.
\<close>

definition allowedFields :: "string list" where
  "allowedFields = [''title'', ''content'', ''tags'']"

definition updates_of :: "json \<Rightarrow> jobject" where
  "updates_of b =
     concat (map (\<lambda>field. case get_prop b field of None \<Rightarrow> [] | Some v \<Rightarrow> [(field, v)])
               allowedFields)"

definition spread :: "jobject \<Rightarrow> jobject \<Rightarrow> jobject" where
  "spread n us = foldl (\<lambda>acc (k, v). AList.update k v acc) n us"

definition patch_note :: "string \<Rightarrow> string \<Rightarrow> json \<Rightarrow> datafile \<Rightarrow> result \<times> datafile" where
  "patch_note t i b f =
     (let notes = readNotes f in
      case findIndex (has_id i) notes of
        None \<Rightarrow> (Respond 404 not_found, f)
      | Some index \<Rightarrow>
          if b = JNull then (Throws, f)
          else
            (let n = AList.update ''updatedAt'' (JStr t) (spread (notes ! index) (updates_of b));
                 notes' = notes[index := n]
             in (Respond 200 (success n), writeNotes notes')))"

text \<open>\<^verbatim>\<open>DELETE /notes/:id\<close>: \<^verbatim>\<open>notes.splice(index, 1)\<close> removes the note found.\<close>

definition delete_note :: "string \<Rightarrow> datafile \<Rightarrow> result \<times> datafile" where
  "delete_note i f =
     (let notes = readNotes f in
      case findIndex (has_id i) notes of
        None \<Rightarrow> (Respond 404 not_found, f)
      | Some index \<Rightarrow>
          (let deleted = notes ! index;
               notes' = take index notes @ drop (Suc index) notes
           in (Respond 200
                 (JObj [(''success'', JBool True), (''data'', JObj deleted),
                        (''message'', JStr ''Note deleted'')]),
               writeNotes notes')))"

text \<open>A body restricted to the fields \<^verbatim>\<open>PATCH\<close> allows, to state that the others are ignored.\<close>

definition only_allowed :: "json \<Rightarrow> json" where
  "only_allowed b =
     (case b of
        JObj ms \<Rightarrow> JObj (filter (\<lambda>(k, v). k \<in> set allowedFields) ms)
      | _ \<Rightarrow> b)"

section \<open>The routers\<close>

text \<open>
  Both \<^verbatim>\<open>Router\<close> classes keep one route table per key \<^verbatim>\<open>GET\<close>, \<^verbatim>\<open>POST\<close>, \<^verbatim>\<open>PUT\<close>, \<^verbatim>\<open>DELETE\<close>,
  \<^verbatim>\<open>PATCH\<close> of \<^verbatim>\<open>this.routes\<close>, and a list of middlewares. \<^verbatim>\<open>req.method\<close> is a string:
  \<^verbatim>\<open>this.routes[req.method]\<close> is \<^verbatim>\<open>undefined\<close> for any other method.
\<close>

datatype verb = GET | POST | PUT | DELETE | PATCH

definition verb_of :: "string \<Rightarrow> verb option" where
  "verb_of m =
     (if m = ''GET'' then Some GET
      else if m = ''POST'' then Some POST
      else if m = ''PUT'' then Some PUT
      else if m = ''DELETE'' then Some DELETE
      else if m = ''PATCH'' then Some PATCH
      else None)"

text \<open>
  The request as the routers use it: \<^verbatim>\<open>method\<close>, the \<^verbatim>\<open>pathname\<close> that \<^verbatim>\<open>handle\<close> takes from
  \<^verbatim>\<open>url.parse(req.url)\<close>, \<^verbatim>\<open>params\<close> (empty while not set) and \<^verbatim>\<open>body\<close> (\<open>None\<close> while not set).
  The response is what has been sent, \<open>None\<close> while nothing has: \<^verbatim>\<open>res.writableEnded\<close> is that
  something was sent. A middleware is called with both and may change both.
\<close>

record request =
  "method" :: string
  pathname :: string
  params :: "(string \<times> string) list"
  req_body :: "json option"

type_synonym response = "(nat \<times> json) option"

type_synonym middleware = "request \<Rightarrow> response \<Rightarrow> request \<times> response"

definition writableEnded :: "response \<Rightarrow> bool" where
  "writableEnded rs = (rs \<noteq> None)"

text \<open>
  What \<^verbatim>\<open>handle\<close> comes to: it calls a route's handler with the request; it answers itself
  with \<^verbatim>\<open>res.json(data, status)\<close>; it returns without either; \<^verbatim>\<open>res.json\<close> throws because the
  response has already been sent; or it waits for a body whose stream has not ended.
\<close>

datatype 'h action = Invoke 'h request | Reply nat json | Return | Raise | Wait

subsection \<open>Part 3: \<^verbatim>\<open>router.js\<close>\<close>

text \<open>
  \<^verbatim>\<open>addRoute\<close> turns the path into the source of a regular expression: each match of
  \<^verbatim>\<open>/:([^/]+)/g\<close>, a colon with the longest non-empty run of characters other than \<^verbatim>\<open>/\<close> after
  it, is replaced by \<^verbatim>\<open>([^/]+)\<close> and its run is pushed on \<^verbatim>\<open>paramNames\<close>; the pattern is
  \<^verbatim>\<open>new RegExp(`^${regexPath}$`)\<close>. It pushes the route at the end of the method's list.
\<close>

record 'h route =
  pattern :: string
  handler :: 'h
  paramNames :: "string list"

record 'h router3 =
  routes3 :: "verb \<Rightarrow> 'h route list"
  middlewares3 :: "middleware list"

definition new_router3 :: "'h router3" where
  "new_router3 = \<lparr>routes3 = (\<lambda>v. []), middlewares3 = []\<rparr>"

definition use3 :: "middleware \<Rightarrow> 'h router3 \<Rightarrow> 'h router3" where
  "use3 fn r = r\<lparr>middlewares3 := middlewares3 r @ [fn]\<rparr>"

definition not_slash :: "char \<Rightarrow> bool" where
  "not_slash c = (c \<noteq> CHR ''/'')"

function replace_params :: "string \<Rightarrow> string \<times> string list" where
  "replace_params [] = ([], [])"
| "replace_params (c # cs) =
     (if c = CHR '':'' \<and> takeWhile not_slash cs \<noteq> []
      then (let (re, names) = replace_params (dropWhile not_slash cs)
            in (''([^/]+)'' @ re, takeWhile not_slash cs # names))
      else (let (re, names) = replace_params cs in (c # re, names)))"
  by pat_completeness auto
termination
  by (relation "measure length") (auto simp: length_dropWhile_le less_Suc_eq_le)

definition addRoute :: "verb \<Rightarrow> string \<Rightarrow> 'h \<Rightarrow> 'h router3 \<Rightarrow> 'h router3" where
  "addRoute v path h r =
     (let (regexPath, names) = replace_params path
      in r\<lparr>routes3 := (routes3 r)
              (v := routes3 r v @
                 [\<lparr>pattern = ''^'' @ regexPath @ ''$'', handler = h, paramNames = names\<rparr>])\<rparr>)"

text \<open>
  The middlewares run in order; after each, \<^verbatim>\<open>if (res.writableEnded) return\<close>. \<open>None\<close> is that
  return.
\<close>

fun run_middlewares3 ::
  "middleware list \<Rightarrow> request \<Rightarrow> response \<Rightarrow> (request \<times> response) option" where
  "run_middlewares3 [] rq rs = Some (rq, rs)"
| "run_middlewares3 (mw # mws) rq rs =
     (case mw rq rs of
        (rq', rs') \<Rightarrow> if writableEnded rs' then None else run_middlewares3 mws rq' rs')"

text \<open>
  The loop over the method's routes. \<open>rx\<close> is the regular-expression engine:
  \<open>rx source subject\<close> is \<^verbatim>\<open>subject.match(new RegExp(source))\<close>, \<open>None\<close> for \<^verbatim>\<open>null\<close> and
  otherwise the captured groups \<^verbatim>\<open>match[1]\<close>, \<^verbatim>\<open>match[2]\<close>, ... It is a built-in of the language
  and a parameter here.
\<close>

fun find_route ::
  "(string \<Rightarrow> string \<Rightarrow> string list option) \<Rightarrow> 'h route list \<Rightarrow> string \<Rightarrow>
   ('h route \<times> string list) option" where
  "find_route rx [] p = None"
| "find_route rx (r # rs) p =
     (case rx (pattern r) p of
        Some caps \<Rightarrow> Some (r, caps)
      | None \<Rightarrow> find_route rx rs p)"

text \<open>
  \<^verbatim>\<open>route.paramNames.forEach((name, i) => { req.params[name] = match[i + 1]; })\<close>: the
  captures are written into the \<^verbatim>\<open>req.params\<close> that is there, \<open>ps\<close>.
\<close>

definition set_params ::
  "(string \<times> string) list \<Rightarrow> string list \<Rightarrow> string list \<Rightarrow> (string \<times> string) list" where
  "set_params ps names caps = foldl (\<lambda>ps (n, c). AList.update n c ps) ps (zip names caps)"

definition route_not_found3 :: json where
  "route_not_found3 = JObj [(''success'', JBool False), (''error'', JStr ''Route not found'')]"

text \<open>
  \<^verbatim>\<open>handle\<close> sets \<^verbatim>\<open>req.params = {}\<close>, runs the middlewares, and returns when one has ended the
  response. Otherwise it goes through the routes of the method; for the first whose pattern
  matches it writes the captures into \<^verbatim>\<open>req.params\<close> as the middlewares have left it, reads
  the body and calls the handler. The request stream is paused until the body listeners are
  attached, so they receive all its events \<open>evs\<close>.
\<close>

definition handle3 ::
  "(string \<Rightarrow> string \<Rightarrow> string list option) \<Rightarrow> (string \<Rightarrow> json option) \<Rightarrow>
   'h router3 \<Rightarrow> request \<Rightarrow> event list \<Rightarrow> 'h action" where
  "handle3 rx parse r rq evs =
     (case run_middlewares3 (middlewares3 r) (rq\<lparr>params := []\<rparr>) None of
        None \<Rightarrow> Return
      | Some (rq', rs') \<Rightarrow>
          (let routes = (case verb_of (method rq') of Some v \<Rightarrow> routes3 r v | None \<Rightarrow> [])
           in case find_route rx routes (pathname rq') of
                Some (route, caps) \<Rightarrow>
                  (case promise (parseBody3 parse evs) of
                     Resolved b \<Rightarrow>
                       Invoke (handler route)
                         (rq'\<lparr>params := set_params (params rq') (paramNames route) caps,
                              req_body := Some b\<rparr>)
                   | _ \<Rightarrow> Wait)
              | None \<Rightarrow> Reply 404 route_not_found3))"

subsection \<open>Part 2: \<^verbatim>\<open>10-custom-router.js\<close>\<close>

text \<open>
  The route tables are objects keyed by the path: \<^verbatim>\<open>this.routes.GET[path] = handler\<close>. The
  class has \<^verbatim>\<open>get\<close>, \<^verbatim>\<open>post\<close>, \<^verbatim>\<open>put\<close> and \<^verbatim>\<open>delete\<close>, and no \<^verbatim>\<open>patch\<close>. \<^verbatim>\<open>handle\<close> runs every
  middleware, without a test in between, and looks the handler up with
  \<^verbatim>\<open>this.routes[req.method]?.[req.pathname]\<close>. A table is the finite map of the paths
  registered in it: the pathname of a request line starts with \<^verbatim>\<open>/\<close> (or is \<^verbatim>\<open>*\<close>), so it
  never names a property that the object inherits.
\<close>

record 'h router2 =
  routes2 :: "verb \<Rightarrow> string \<rightharpoonup> 'h"
  middlewares2 :: "middleware list"

definition new_router2 :: "'h router2" where
  "new_router2 = \<lparr>routes2 = (\<lambda>v. Map.empty), middlewares2 = []\<rparr>"

definition use2 :: "middleware \<Rightarrow> 'h router2 \<Rightarrow> 'h router2" where
  "use2 fn r = r\<lparr>middlewares2 := middlewares2 r @ [fn]\<rparr>"

definition setRoute2 :: "verb \<Rightarrow> string \<Rightarrow> 'h \<Rightarrow> 'h router2 \<Rightarrow> 'h router2" where
  "setRoute2 v path h r = r\<lparr>routes2 := (routes2 r)(v := (routes2 r v)(path \<mapsto> h))\<rparr>"

definition get2 :: "string \<Rightarrow> 'h \<Rightarrow> 'h router2 \<Rightarrow> 'h router2" where
  "get2 = setRoute2 GET"

definition post2 :: "string \<Rightarrow> 'h \<Rightarrow> 'h router2 \<Rightarrow> 'h router2" where
  "post2 = setRoute2 POST"

definition put2 :: "string \<Rightarrow> 'h \<Rightarrow> 'h router2 \<Rightarrow> 'h router2" where
  "put2 = setRoute2 PUT"

definition delete2 :: "string \<Rightarrow> 'h \<Rightarrow> 'h router2 \<Rightarrow> 'h router2" where
  "delete2 = setRoute2 DELETE"

fun run_middlewares2 :: "middleware list \<Rightarrow> request \<Rightarrow> response \<Rightarrow> request \<times> response" where
  "run_middlewares2 [] rq rs = (rq, rs)"
| "run_middlewares2 (mw # mws) rq rs =
     (case mw rq rs of (rq', rs') \<Rightarrow> run_middlewares2 mws rq' rs')"

definition route_not_found2 :: json where
  "route_not_found2 = JObj [(''error'', JStr ''Route not found'')]"

text \<open>
  \<^verbatim>\<open>parseBody\<close> attaches its listeners after the middlewares have run. While the response is
  open the request stream is paused until then, and the listeners receive all its events
  \<open>evs\<close>. Once a middleware has ended the response, Node dumps the request: its chunks are
  discarded, and its \<^verbatim>\<open>'end'\<close> may have been emitted before the listeners are attached. \<open>late\<close>
  is what listeners attached after the response has ended receive: nothing, so that the
  body promise stays pending and the handler is never called, or only \<^verbatim>\<open>'end'\<close>, so that the
  handler is called with \<^verbatim>\<open>{}\<close>. With no handler for the request, \<^verbatim>\<open>res.json\<close> is called whatever
  the middlewares did, and throws when the response has ended.
\<close>

definition handle2 ::
  "(string \<Rightarrow> json option) \<Rightarrow> 'h router2 \<Rightarrow> request \<Rightarrow> event list \<Rightarrow> event list \<Rightarrow>
   'h action" where
  "handle2 parse r rq evs late =
     (case run_middlewares2 (middlewares2 r) rq None of
        (rq', rs') \<Rightarrow>
          (case (case verb_of (method rq') of
                   Some v \<Rightarrow> routes2 r v (pathname rq')
                 | None \<Rightarrow> None) of
             Some h \<Rightarrow>
               (case promise (parseBody2 parse (if writableEnded rs' then late else evs)) of
                  Resolved b \<Rightarrow> Invoke h (rq'\<lparr>req_body := Some b\<rparr>)
                | _ \<Rightarrow> Wait)
           | None \<Rightarrow> if writableEnded rs' then Raise else Reply 404 route_not_found2))"

subsection \<open>Routers built from a route table\<close>

text \<open>
  A route table is the list of registrations, in the order they are made, on a new router
  that has been given the middlewares \<open>mws\<close>.
\<close>

definition build3 :: "middleware list \<Rightarrow> (verb \<times> string \<times> 'h) list \<Rightarrow> 'h router3" where
  "build3 mws regs =
     foldl (\<lambda>r (v, path, h). addRoute v path h r) (foldl (\<lambda>r fn. use3 fn r) new_router3 mws) regs"

definition build2 :: "middleware list \<Rightarrow> (verb \<times> string \<times> 'h) list \<Rightarrow> 'h router2" where
  "build2 mws regs =
     foldl (\<lambda>r (v, path, h). setRoute2 v path h r) (foldl (\<lambda>r fn. use2 fn r) new_router2 mws) regs"

text \<open>The handler an action calls, and whether it is the 404 answer.\<close>

fun selected :: "'h action \<Rightarrow> 'h option" where
  "selected (Invoke h rq) = Some h"
| "selected a = None"

fun is_404 :: "'h action \<Rightarrow> bool" where
  "is_404 (Reply st d) = (st = 404)"
| "is_404 a = False"

text \<open>
  The rate limiter of the lesson's question 9, once the address has used up its requests:
  it answers 429 through \<^verbatim>\<open>res.json\<close>, which ends the response.
\<close>

definition limit_reached :: "int \<Rightarrow> middleware" where
  "limit_reached retryAfter rq rs =
     (rq, Some (429, JObj [(''error'', JStr ''Too many requests''),
                           (''retryAfter'', JNum retryAfter)]))"

text \<open>
  The logging middleware both lessons register with \<^verbatim>\<open>use\<close>: it calls \<^verbatim>\<open>console.log\<close> and
  touches neither the request nor the response.
\<close>

definition logger :: middleware where
  "logger rq rs = (rq, rs)"

subsection \<open>Literal paths and a regular-expression engine for them\<close>

text \<open>
  The characters with a meaning in the source of a regular expression. A path without
  them and without a colon is a literal path: \<^verbatim>\<open>addRoute\<close> leaves it as it is, and the pattern
  \<^verbatim>\<open>^path$\<close> matches the path and nothing else, with no group. \<open>literal_engine\<close> says that of
  an engine.
\<close>

definition is_meta :: "char \<Rightarrow> bool" where
  "is_meta c = (c = CHR 0x5C \<or> c \<in> set ''^$.|?*+()[]{}'')"

definition literal_path :: "string \<Rightarrow> bool" where
  "literal_path p = list_all (\<lambda>c. c \<noteq> CHR '':'' \<and> \<not> is_meta c) p"

definition literal_engine :: "(string \<Rightarrow> string \<Rightarrow> string list option) \<Rightarrow> bool" where
  "literal_engine rx =
     (\<forall>p s. literal_path p \<longrightarrow> rx (''^'' @ p @ ''$'') s = (if s = p then Some [] else None))"

text \<open>
  An engine for the sources \<^verbatim>\<open>addRoute\<close> makes from paths without meta-characters: \<^verbatim>\<open>^\<close>, then
  literal characters and groups \<^verbatim>\<open>([^/]+)\<close>, then \<^verbatim>\<open>$\<close>. A group takes the longest run of
  characters other than \<^verbatim>\<open>/\<close> with which the rest still matches.
\<close>

datatype token = Chr char | Group

function tokens :: "string \<Rightarrow> token list" where
  "tokens [] = []"
| "tokens (c # cs) =
     (if take 7 (c # cs) = ''([^/]+)'' then Group # tokens (drop 7 (c # cs))
      else Chr c # tokens cs)"
  by pat_completeness auto
termination
  by (relation "measure length") auto

fun first_some :: "'a option list \<Rightarrow> 'a option" where
  "first_some [] = None"
| "first_some (None # xs) = first_some xs"
| "first_some (Some x # xs) = Some x"

fun match_tokens :: "token list \<Rightarrow> string \<Rightarrow> string list option" where
  "match_tokens [] s = (if s = [] then Some [] else None)"
| "match_tokens (Chr c # ts) s =
     (case s of
        [] \<Rightarrow> None
      | x # xs \<Rightarrow> if x = c then match_tokens ts xs else None)"
| "match_tokens (Group # ts) s =
     first_some
       (map (\<lambda>n. map_option (\<lambda>caps. take n s # caps) (match_tokens ts (drop n s)))
          (rev [1..<Suc (length (takeWhile not_slash s))]))"

definition regexp_match :: "string \<Rightarrow> string \<Rightarrow> string list option" where
  "regexp_match source s =
     (if length source \<ge> 2 \<and> hd source = CHR ''^'' \<and> last source = CHR ''$''
      then match_tokens (tokens (butlast (tl source))) s
      else None)"

text \<open>
  The paths and handlers registered for a method, in registration order, and the route
  \<^verbatim>\<open>addRoute\<close> makes of one.
\<close>

definition registered :: "verb \<Rightarrow> (verb \<times> string \<times> 'h) list \<Rightarrow> (string \<times> 'h) list" where
  "registered v regs = map snd (filter (\<lambda>reg. fst reg = v) regs)"

definition route_of :: "string \<times> 'h \<Rightarrow> 'h route" where
  "route_of ph =
     \<lparr>pattern = ''^'' @ fst (replace_params (fst ph)) @ ''$'', handler = snd ph,
      paramNames = snd (replace_params (fst ph))\<rparr>"

section \<open>The static file server\<close>

subsection \<open>Paths\<close>

text \<open>
  \<^verbatim>\<open>path.normalize\<close> and \<^verbatim>\<open>path.join\<close> are Node's, in their POSIX form. A path is cut at
  its slashes; \<^verbatim>\<open>normalizeString\<close> goes through the segments, skips the empty ones and
  \<^verbatim>\<open>.\<close>, and on \<^verbatim>\<open>..\<close> drops the last segment kept unless there is none or it is \<^verbatim>\<open>..\<close>
  itself, in which case \<^verbatim>\<open>..\<close> is kept when the path is relative (\<open>allowAboveRoot\<close>) and
  dropped when it is absolute. \<^verbatim>\<open>normalize\<close> puts the leading and the trailing slash back.
  \<^verbatim>\<open>join\<close> glues its non-empty arguments with slashes and normalizes.
\<close>

fun split_on :: "char \<Rightarrow> string \<Rightarrow> string list" where
  "split_on c [] = [[]]"
| "split_on c (x # xs) =
     (if x = c then [] # split_on c xs
      else (case split_on c xs of
              [] \<Rightarrow> [[x]]
            | s # ss \<Rightarrow> (x # s) # ss))"

fun join_with :: "string \<Rightarrow> string list \<Rightarrow> string" where
  "join_with sep [] = []"
| "join_with sep [s] = s"
| "join_with sep (s # t # ss) = s @ sep @ join_with sep (t # ss)"

fun normalizeString :: "bool \<Rightarrow> string list \<Rightarrow> string list \<Rightarrow> string list" where
  "normalizeString allowAboveRoot res [] = res"
| "normalizeString allowAboveRoot res (s # ss) =
     (if s = [] \<or> s = ''.'' then normalizeString allowAboveRoot res ss
      else if s = ''..'' then
        (if res \<noteq> [] \<and> last res \<noteq> ''..'' then normalizeString allowAboveRoot (butlast res) ss
         else if allowAboveRoot then normalizeString allowAboveRoot (res @ [''..'']) ss
         else normalizeString allowAboveRoot res ss)
      else normalizeString allowAboveRoot (res @ [s]) ss)"

definition normalize :: "string \<Rightarrow> string" where
  "normalize path =
     (if path = [] then ''.''
      else
        (let isAbsolute = (hd path = CHR ''/'');
             trailingSeparator = (last path = CHR ''/'');
             p = join_with ''/'' (normalizeString (\<not> isAbsolute) [] (split_on CHR ''/'' path))
         in if p = [] then (if isAbsolute then ''/'' else if trailingSeparator then ''./'' else ''.'')
            else (if isAbsolute then ''/'' else []) @ p @ (if trailingSeparator then ''/'' else [])))"

definition path_join :: "string list \<Rightarrow> string" where
  "path_join args =
     (let joined = join_with ''/'' (filter (\<lambda>arg. arg \<noteq> []) args)
      in if joined = [] then ''.'' else normalize joined)"

text \<open>
  \<^verbatim>\<open>.replace(/^(\.\.(\/|\\|$))+/, '')\<close>: the longest prefix made of \<^verbatim>\<open>..\<close> each followed by a
  slash, a backslash or the end of the string is removed.
\<close>

function strip_dotdots :: "string \<Rightarrow> string" where
  "strip_dotdots s =
     (if take 3 s = ''../'' \<or> take 3 s = [CHR ''.'', CHR ''.'', CHR 0x5C]
      then strip_dotdots (drop 3 s)
      else if s = ''..'' then [] else s)"
  by pat_completeness auto
termination
  apply (relation "measure length")
   apply simp
  apply (case_tac s; simp)
  done

declare strip_dotdots.simps [simp del]

subsection \<open>The server\<close>

text \<open>
  The file system is what \<^verbatim>\<open>fs.stat\<close>, \<^verbatim>\<open>fs.existsSync\<close> and \<^verbatim>\<open>fs.readFile\<close> find at a path:
  nothing, a directory, a file with its content, or a file that cannot be read.
  \<^verbatim>\<open>decodeURIComponent\<close> (\<open>None\<close> when it throws \<^verbatim>\<open>URIError\<close>) is a built-in and a parameter
  here, and so is the digest that makes the ETag (\<open>generateETag\<close> below). Of the response the status, the body
  and the \<^verbatim>\<open>ETag\<close> are kept; the other headers are left out.
\<close>

datatype node = File string | Unreadable_file | Directory

type_synonym filesystem = "string \<Rightarrow> node option"

record http_request =
  http_method :: string
  url :: string
  if_none_match :: "string option"

datatype reply =
    Text nat string
  | NotFoundPage string
  | NotModified
  | FileContent string string string
  | DirectoryListing string string
  | Uncaught

text \<open>
  \<^verbatim>\<open>serveFile\<close>: 500 when the file cannot be read, 304 with no body when the request's
  \<^verbatim>\<open>If-None-Match\<close> is the content's ETag, else 200 with the content. \<open>FileContent\<close> holds
  the path read, the content and the ETag.
\<close>

definition serveFile ::
  "(string \<Rightarrow> string) \<Rightarrow> filesystem \<Rightarrow> string \<Rightarrow> http_request \<Rightarrow> reply" where
  "serveFile digest fs filePath req =
     (case fs filePath of
        Some (File content) \<Rightarrow>
          (let etag = digest content
           in if if_none_match req = Some etag then NotModified
              else FileContent filePath content etag)
      | _ \<Rightarrow> Text 500 ''Internal Server Error'')"

text \<open>
  The request listener. \<^verbatim>\<open>fs.stat\<close> throws on a path with a null byte; a failing \<^verbatim>\<open>stat\<close>
  gives the 404 page; a directory is answered with its \<^verbatim>\<open>index.html\<close> when that exists and
  with a listing (\<open>DirectoryListing\<close> of the directory read, for the URL path) otherwise.
\<close>

definition server ::
  "(string \<Rightarrow> string option) \<Rightarrow> (string \<Rightarrow> string) \<Rightarrow> string \<Rightarrow> filesystem \<Rightarrow>
   http_request \<Rightarrow> reply" where
  "server decodeURIComponent digest PUBLIC_DIR fs req =
     (if http_method req \<noteq> ''GET'' then Text 405 ''Method Not Allowed''
      else
        (case decodeURIComponent (takeWhile (\<lambda>c. c \<noteq> CHR ''?'') (url req)) of
           None \<Rightarrow> Uncaught
         | Some urlPath \<Rightarrow>
             (let safePath = strip_dotdots (normalize urlPath);
                  filePath = path_join [PUBLIC_DIR, safePath]
              in if \<not> prefix PUBLIC_DIR filePath then Text 403 ''Forbidden''
                 else if CHR 0x00 \<in> set filePath then Uncaught
                 else
                   (case fs filePath of
                      None \<Rightarrow> NotFoundPage urlPath
                    | Some Directory \<Rightarrow>
                        (let indexPath = path_join [filePath, ''index.html'']
                         in if fs indexPath \<noteq> None then serveFile digest fs indexPath req
                            else DirectoryListing filePath urlPath)
                    | Some _ \<Rightarrow> serveFile digest fs filePath req))))"

text \<open>
  \<open>PUBLIC_DIR\<close> is \<^verbatim>\<open>path.join(__dirname, 'public')\<close>: an absolute, normalized path of at least
  one segment. A path lies under a directory when its segments are the directory's
  followed by segments none of which is \<^verbatim>\<open>..\<close>.
\<close>

definition clean :: "string \<Rightarrow> bool" where
  "clean s = (s \<noteq> [] \<and> s \<noteq> ''.'' \<and> s \<noteq> ''..'')"

definition valid_root :: "string \<Rightarrow> bool" where
  "valid_root root =
     (case split_on CHR ''/'' root of
        [] \<Rightarrow> False
      | s # segs \<Rightarrow> s = [] \<and> segs \<noteq> [] \<and> list_all clean segs)"

definition lies_under :: "string \<Rightarrow> string \<Rightarrow> bool" where
  "lies_under root p =
     (prefix (split_on CHR ''/'' root) (split_on CHR ''/'' p) \<and>
      ''..'' \<notin> set (drop (length (split_on CHR ''/'' root)) (split_on CHR ''/'' p)))"

text \<open>
  \<^verbatim>\<open>decodeURIComponent\<close> for the texts whose escapes are all below \<^verbatim>\<open>%80\<close>, to run the server
  on concrete requests.
\<close>

definition hex_val :: "char \<Rightarrow> nat option" where
  "hex_val c =
     (let n = (of_char c :: nat)
      in if 48 \<le> n \<and> n \<le> 57 then Some (n - 48)
         else if 65 \<le> n \<and> n \<le> 70 then Some (n - 55)
         else if 97 \<le> n \<and> n \<le> 102 then Some (n - 87)
         else None)"

fun decode_ascii :: "string \<Rightarrow> string option" where
  "decode_ascii [] = Some []"
| "decode_ascii (c # cs) =
     (if c = CHR ''%'' then
        (case cs of
           h1 # h2 # r \<Rightarrow>
             (case (hex_val h1, hex_val h2) of
                (Some a, Some b) \<Rightarrow>
                  if 16 * a + b < 128
                  then map_option (\<lambda>t. char_of (16 * a + b) # t) (decode_ascii r)
                  else None
              | _ \<Rightarrow> None)
         | _ \<Rightarrow> None)
      else map_option (\<lambda>t. c # t) (decode_ascii cs))"

section \<open>The cache of the lesson's question 8\<close>

text \<open>
  \<^verbatim>\<open>class Cache\<close>: a \<^verbatim>\<open>Map\<close> from keys to \<^verbatim>\<open>{ value, expiry }\<close> and a time to live. \<open>now\<close> is
  what \<^verbatim>\<open>Date.now()\<close> returns. \<^verbatim>\<open>get\<close> returns \<^verbatim>\<open>null\<close> (\<open>None\<close>) for a missing entry, and for
  an expired one, which it deletes.
\<close>

record ('k, 'v) cache =
  entries :: "'k \<rightharpoonup> 'v \<times> int"
  ttl :: int

definition Cache :: "int \<Rightarrow> ('k, 'v) cache" where
  "Cache ttlMs = \<lparr>entries = Map.empty, ttl = ttlMs\<rparr>"

definition cache_set :: "('k, 'v) cache \<Rightarrow> 'k \<Rightarrow> 'v \<Rightarrow> int \<Rightarrow> ('k, 'v) cache" where
  "cache_set c key val now = c\<lparr>entries := (entries c)(key \<mapsto> (val, now + ttl c))\<rparr>"

definition cache_get :: "('k, 'v) cache \<Rightarrow> 'k \<Rightarrow> int \<Rightarrow> 'v option \<times> ('k, 'v) cache" where
  "cache_get c key now =
     (case entries c key of
        None \<Rightarrow> (None, c)
      | Some (val, expiry) \<Rightarrow>
          if now > expiry then (None, c\<lparr>entries := (entries c)(key := None)\<rparr>)
          else (Some val, c))"

definition cache_invalidate :: "('k, 'v) cache \<Rightarrow> 'k \<Rightarrow> ('k, 'v) cache" where
  "cache_invalidate c key = c\<lparr>entries := (entries c)(key := None)\<rparr>"

section \<open>The ETag digest\<close>

text \<open>
  \<^verbatim>\<open>generateETag\<close> is \<^verbatim>\<open>crypto.createHash('md5').update(content).digest('hex')\<close>. MD5 is
  written out after RFC 1321: the message is padded with \<^verbatim>\<open>0x80\<close>, zeros up to 56 modulo 64
  bytes and its length in bits, and each block of sixteen little-endian words goes through
  the 64 steps. A content is the string of its bytes.
\<close>

definition md5_K :: "32 word list" where
  "md5_K =
     [0xd76aa478, 0xe8c7b756, 0x242070db, 0xc1bdceee,
      0xf57c0faf, 0x4787c62a, 0xa8304613, 0xfd469501,
      0x698098d8, 0x8b44f7af, 0xffff5bb1, 0x895cd7be,
      0x6b901122, 0xfd987193, 0xa679438e, 0x49b40821,
      0xf61e2562, 0xc040b340, 0x265e5a51, 0xe9b6c7aa,
      0xd62f105d, 0x02441453, 0xd8a1e681, 0xe7d3fbc8,
      0x21e1cde6, 0xc33707d6, 0xf4d50d87, 0x455a14ed,
      0xa9e3e905, 0xfcefa3f8, 0x676f02d9, 0x8d2a4c8a,
      0xfffa3942, 0x8771f681, 0x6d9d6122, 0xfde5380c,
      0xa4beea44, 0x4bdecfa9, 0xf6bb4b60, 0xbebfbc70,
      0x289b7ec6, 0xeaa127fa, 0xd4ef3085, 0x04881d05,
      0xd9d4d039, 0xe6db99e5, 0x1fa27cf8, 0xc4ac5665,
      0xf4292244, 0x432aff97, 0xab9423a7, 0xfc93a039,
      0x655b59c3, 0x8f0ccc92, 0xffeff47d, 0x85845dd1,
      0x6fa87e4f, 0xfe2ce6e0, 0xa3014314, 0x4e0811a1,
      0xf7537e82, 0xbd3af235, 0x2ad7d2bb, 0xeb86d391]"

definition md5_s :: "nat list" where
  "md5_s =
     [7, 12, 17, 22, 7, 12, 17, 22, 7, 12, 17, 22, 7, 12, 17, 22,
      5, 9, 14, 20, 5, 9, 14, 20, 5, 9, 14, 20, 5, 9, 14, 20,
      4, 11, 16, 23, 4, 11, 16, 23, 4, 11, 16, 23, 4, 11, 16, 23,
      6, 10, 15, 21, 6, 10, 15, 21, 6, 10, 15, 21, 6, 10, 15, 21]"

type_synonym md5_state = "32 word \<times> 32 word \<times> 32 word \<times> 32 word"

definition md5_step :: "32 word list \<Rightarrow> md5_state \<Rightarrow> nat \<Rightarrow> md5_state" where
  "md5_step M st i =
     (case st of (a, b, c, d) \<Rightarrow>
        (let f = (if i < 16 then (b AND c) OR (NOT b AND d)
                  else if i < 32 then (d AND b) OR (NOT d AND c)
                  else if i < 48 then b XOR c XOR d
                  else c XOR (b OR NOT d));
             g = (if i < 16 then i
                  else if i < 32 then (5 * i + 1) mod 16
                  else if i < 48 then (3 * i + 5) mod 16
                  else (7 * i) mod 16)
         in (d, b + word_rotl (md5_s ! i) (a + f + md5_K ! i + M ! g), b, c)))"

definition md5_block :: "md5_state \<Rightarrow> 32 word list \<Rightarrow> md5_state" where
  "md5_block st M =
     (case st of (a0, b0, c0, d0) \<Rightarrow>
        (case foldl (md5_step M) st [0..<64] of
           (a, b, c, d) \<Rightarrow> (a0 + a, b0 + b, c0 + c, d0 + d)))"

text \<open>
  Bytes to little-endian words, the words cut in blocks of sixteen (the fuel is the number
  of words, more than the number of blocks), and numbers to little-endian bytes.
\<close>

fun words_le :: "nat list \<Rightarrow> 32 word list" where
  "words_le (b0 # b1 # b2 # b3 # bs) =
     of_nat (b0 + 256 * b1 + 65536 * b2 + 16777216 * b3) # words_le bs"
| "words_le bs = []"

fun blocks :: "nat \<Rightarrow> 'a list \<Rightarrow> 'a list list" where
  "blocks fuel [] = []"
| "blocks 0 xs = []"
| "blocks (Suc fuel) xs = take 16 xs # blocks fuel (drop 16 xs)"

definition le_bytes :: "nat \<Rightarrow> nat \<Rightarrow> nat list" where
  "le_bytes n v = map (\<lambda>i. (v div 256 ^ i) mod 256) [0..<n]"

definition md5_pad :: "nat list \<Rightarrow> nat list" where
  "md5_pad bs =
     bs @ [128] @ replicate ((119 - length bs mod 64) mod 64) 0 @ le_bytes 8 (8 * length bs)"

definition hex_digit :: "nat \<Rightarrow> char" where
  "hex_digit n = (if n < 10 then char_of (48 + n) else char_of (87 + n))"

definition hex_byte :: "nat \<Rightarrow> string" where
  "hex_byte b = [hex_digit (b div 16), hex_digit (b mod 16)]"

definition md5_hex :: "string \<Rightarrow> string" where
  "md5_hex content =
     (let bs = md5_pad (map of_char content);
          ws = words_le bs;
          (a, b, c, d) = foldl md5_block (0x67452301, 0xefcdab89, 0x98badcfe, 0x10325476)
                           (blocks (length ws) ws)
      in concat (map hex_byte (concat (map (\<lambda>w. le_bytes 4 (unat w)) [a, b, c, d]))))"

definition generateETag :: "string \<Rightarrow> string" where
  "generateETag content = md5_hex content"

text \<open>
  The shapes of segment lists used in the proofs about \<^verbatim>\<open>normalize\<close>: some \<^verbatim>\<open>..\<close> (none when
  \<open>allowAboveRoot\<close> is off) followed by clean segments, and some \<^verbatim>\<open>..\<close> followed by
  segments other than \<^verbatim>\<open>..\<close>.
\<close>

definition shape :: "bool \<Rightarrow> string list \<Rightarrow> bool" where
  "shape a r = (\<exists>k cs. r = replicate k ''..'' @ cs \<and> list_all clean cs \<and> (\<not> a \<longrightarrow> k = 0))"

definition dotdots_first :: "string list \<Rightarrow> bool" where
  "dotdots_first segs = (\<exists>k rest. segs = replicate k ''..'' @ rest \<and> ''..'' \<notin> set rest)"

section \<open>Properties of the body readers\<close>

lemma parseJSONBody_data:
  "length (b @ concat cs) \<le> 1000000 \<Longrightarrow>
   foldl (parseJSONBody_step parse) \<lparr>body = b, promise = Pending, destroyed = False\<rparr> (map Data cs)
     = \<lparr>body = b @ concat cs, promise = Pending, destroyed = False\<rparr>"
  by (induction cs arbitrary: b) (simp_all add: parseJSONBody_step_def)

lemma parseJSONBody_complete:
  "length (concat cs) \<le> 1000000 \<Longrightarrow>
   parseJSONBody parse (complete cs) =
     \<lparr>body = concat cs,
      promise = (if concat cs = [] then Resolved empty_object
                 else case parse (concat cs) of
                        Some v \<Rightarrow> Resolved v
                      | None \<Rightarrow> Rejected ''Invalid JSON''),
      destroyed = False\<rparr>"
  using parseJSONBody_data [of "[]" cs parse]
  by (simp add: parseJSONBody_def complete_def reader_init_def parseJSONBody_step_def settle_def)

lemma parseJSONBody_destroyed:
  "destroyed st \<Longrightarrow> foldl (parseJSONBody_step parse) st evs = st"
  by (induction evs) (simp_all add: parseJSONBody_step_def)

lemma parseBody2_data:
  "foldl (parseBody2_step parse) \<lparr>body = b, promise = Pending, destroyed = False\<rparr> (map Data cs)
     = \<lparr>body = b @ concat cs, promise = Pending, destroyed = False\<rparr>"
  by (induction cs arbitrary: b) (simp_all add: parseBody2_step_def)

lemma parseBody3_data:
  "foldl (parseBody3_step parse) \<lparr>body = b, promise = Pending, destroyed = False\<rparr> (map Data cs)
     = \<lparr>body = b @ concat cs, promise = Pending, destroyed = False\<rparr>"
  by (induction cs arbitrary: b) (simp_all add: parseBody3_step_def)

lemma parseBody2_complete:
  "parseBody2 parse (complete cs) =
     \<lparr>body = concat cs,
      promise = (if concat cs = [] then Resolved empty_object
                 else case parse (concat cs) of
                        Some v \<Rightarrow> Resolved v
                      | None \<Rightarrow> Resolved empty_object),
      destroyed = False\<rparr>"
  using parseBody2_data [of parse "[]" cs]
  by (simp add: parseBody2_def complete_def reader_init_def parseBody2_step_def settle_def)

lemma parseBody3_complete:
  "parseBody3 parse (complete cs) =
     \<lparr>body = concat cs,
      promise = (case parse (concat cs) of
                   Some v \<Rightarrow> Resolved v
                 | None \<Rightarrow> Resolved empty_object),
      destroyed = False\<rparr>"
  using parseBody3_data [of parse "[]" cs]
  by (simp add: parseBody3_def complete_def reader_init_def parseBody3_step_def settle_def)

text \<open>
  Whatever the events, the two \<^verbatim>\<open>Router.parseBody\<close> readers hold the concatenation of the
  chunks received, never destroy the request and never reject.
\<close>

lemma parseBody2_invariant:
  "\<not> destroyed st \<Longrightarrow> (\<forall>e. promise st \<noteq> Rejected e) \<Longrightarrow>
   body (foldl (parseBody2_step parse) st evs) = body st @ concat (chunks_of evs) \<and>
   \<not> destroyed (foldl (parseBody2_step parse) st evs) \<and>
   (\<forall>e. promise (foldl (parseBody2_step parse) st evs) \<noteq> Rejected e)"
proof (induction evs arbitrary: st)
  case Nil
  then show ?case by simp
next
  case (Cons ev evs)
  let ?st = "parseBody2_step parse st ev"
  have a: "\<not> destroyed ?st" and b: "\<forall>e. promise ?st \<noteq> Rejected e"
    using Cons.prems by (auto simp: parseBody2_step_def settle_def split: event.splits option.splits)
  have c: "body ?st @ concat (chunks_of evs) = body st @ concat (chunks_of (ev # evs))"
    using Cons.prems by (cases ev) (simp_all add: parseBody2_step_def)
  from Cons.IH [OF a b] c show ?case by simp
qed

lemma parseBody3_invariant:
  "\<not> destroyed st \<Longrightarrow> (\<forall>e. promise st \<noteq> Rejected e) \<Longrightarrow>
   body (foldl (parseBody3_step parse) st evs) = body st @ concat (chunks_of evs) \<and>
   \<not> destroyed (foldl (parseBody3_step parse) st evs) \<and>
   (\<forall>e. promise (foldl (parseBody3_step parse) st evs) \<noteq> Rejected e)"
proof (induction evs arbitrary: st)
  case Nil
  then show ?case by simp
next
  case (Cons ev evs)
  let ?st = "parseBody3_step parse st ev"
  have a: "\<not> destroyed ?st" and b: "\<forall>e. promise ?st \<noteq> Rejected e"
    using Cons.prems by (auto simp: parseBody3_step_def settle_def split: event.splits option.splits)
  have c: "body ?st @ concat (chunks_of evs) = body st @ concat (chunks_of (ev # evs))"
    using Cons.prems by (cases ev) (simp_all add: parseBody3_step_def)
  from Cons.IH [OF a b] c show ?case by simp
qed

lemma JSON_parse_empty: "JSON_parse [] = None"
  by code_simp

text \<open>
  Claim C5, as amended. For a complete body, each reader holds the concatenation of the
  chunks and resolves with \<^verbatim>\<open>{}\<close> when it is empty and with its parsed value when it parses;
  \<^verbatim>\<open>parseJSONBody\<close> does so for bodies of at most \<open>10\<^sup>6\<close> characters, and rejects with
  \<^verbatim>\<open>Invalid JSON\<close> such a body that is not empty and does not parse. (\<^verbatim>\<open>JSON.parse\<close> throws on
  the empty string, which is how the Part 3 reader reaches \<^verbatim>\<open>{}\<close>.)
\<close>

theorem readers_resolve_parsed_body:
  assumes "parse [] = None"
  shows "body (parseBody2 parse (complete cs)) = concat cs \<and>
         body (parseBody3 parse (complete cs)) = concat cs \<and>
         (\<forall>v. (if concat cs = [] then Some empty_object else parse (concat cs)) = Some v \<longrightarrow>
                promise (parseBody2 parse (complete cs)) = Resolved v \<and>
                promise (parseBody3 parse (complete cs)) = Resolved v) \<and>
         (length (concat cs) \<le> 1000000 \<longrightarrow>
            body (parseJSONBody parse (complete cs)) = concat cs \<and>
            (\<forall>v. (if concat cs = [] then Some empty_object else parse (concat cs)) = Some v \<longrightarrow>
                   promise (parseJSONBody parse (complete cs)) = Resolved v) \<and>
            (concat cs \<noteq> [] \<and> parse (concat cs) = None \<longrightarrow>
               promise (parseJSONBody parse (complete cs)) = Rejected ''Invalid JSON''))"
proof (cases "concat cs = []")
  case True
  with assms show ?thesis
    by (simp add: parseBody2_complete parseBody3_complete parseJSONBody_complete
        del: concat_eq_Nil_conv)
next
  case False
  then show ?thesis
    by (simp add: parseBody2_complete parseBody3_complete parseJSONBody_complete
        del: concat_eq_Nil_conv)
qed

theorem readers_resolve_parsed_body_witness:
  "JSON_parse [] = None \<and>
   body (parseBody3 JSON_parse (complete [''[1,'', ''2]''])) = ''[1,2]'' \<and>
   promise (parseBody2 JSON_parse (complete [''[1,'', ''2]''])) = Resolved (JArr [JNum 1, JNum 2]) \<and>
   promise (parseBody3 JSON_parse (complete [''[1,'', ''2]''])) = Resolved (JArr [JNum 1, JNum 2]) \<and>
   promise (parseJSONBody JSON_parse (complete [''[1,'', ''2]''])) = Resolved (JArr [JNum 1, JNum 2]) \<and>
   promise (parseBody3 JSON_parse (complete [])) = Resolved empty_object"
proof -
  have p: "JSON_parse ''[1,2]'' = Some (JArr [JNum 1, JNum 2])"
    by code_simp
  show ?thesis
    using readers_resolve_parsed_body [of JSON_parse "[''[1,'', ''2]'']", OF JSON_parse_empty]
      readers_resolve_parsed_body [of JSON_parse "[]", OF JSON_parse_empty] p JSON_parse_empty
    by simp
qed

text \<open>
  Claim C5 as stated fails on \<^verbatim>\<open>parseJSONBody\<close>, which does not resolve for every request. A
  body of \<open>10\<^sup>6 + 1\<close> digits is a JSON number, and its one chunk already rejects the promise
  with \<^verbatim>\<open>Payload too large\<close>; the body \<^verbatim>\<open>{\<close> does not parse, and at \<^verbatim>\<open>'end'\<close> the promise is
  rejected with \<^verbatim>\<open>Invalid JSON\<close>.
\<close>

theorem parseJSONBody_rejects:
  "promise (parseJSONBody JSON_parse [Data (replicate 1000001 CHR ''1'')])
     = Rejected ''Payload too large'' \<and>
   promise (parseJSONBody JSON_parse (complete [''{''])) = Rejected ''Invalid JSON''"
proof -
  have big: "promise (parseJSONBody JSON_parse [Data (replicate 1000001 CHR ''1'')])
     = Rejected ''Payload too large''"
    by (simp add: parseJSONBody_def reader_init_def parseJSONBody_step_def settle_def)
  have "JSON_parse ''{'' = None"
    by code_simp
  then have bad: "promise (parseJSONBody JSON_parse (complete [''{''])) = Rejected ''Invalid JSON''"
    by (simp add: parseJSONBody_complete)
  from big bad show ?thesis
    by blast
qed

text \<open>
  Claim C7, as amended. The two \<^verbatim>\<open>Router.parseBody\<close> readers accumulate every chunk whatever
  the size and never destroy the request or reject. \<^verbatim>\<open>parseJSONBody\<close> accumulates the chunks
  while the accumulated length is at most \<open>10\<^sup>6\<close>; the chunk that takes it beyond destroys the
  request and rejects the promise with \<^verbatim>\<open>Payload too large\<close>, whatever follows.
\<close>

theorem body_size_handling:
  "body (parseBody2 parse evs) = concat (chunks_of evs) \<and>
   \<not> destroyed (parseBody2 parse evs) \<and>
   (\<forall>e. promise (parseBody2 parse evs) \<noteq> Rejected e) \<and>
   body (parseBody3 parse evs) = concat (chunks_of evs) \<and>
   \<not> destroyed (parseBody3 parse evs) \<and>
   (\<forall>e. promise (parseBody3 parse evs) \<noteq> Rejected e) \<and>
   (length (concat cs) \<le> 1000000 \<longrightarrow>
      parseJSONBody parse (map Data cs)
        = \<lparr>body = concat cs, promise = Pending, destroyed = False\<rparr> \<and>
      (length (concat cs @ c) > 1000000 \<longrightarrow>
         parseJSONBody parse (map Data (cs @ [c]) @ evs)
           = \<lparr>body = concat cs @ c, promise = Rejected ''Payload too large'',
              destroyed = True\<rparr>))"
proof -
  have two: "body (parseBody2 parse evs) = concat (chunks_of evs) \<and>
      \<not> destroyed (parseBody2 parse evs) \<and>
      (\<forall>e. promise (parseBody2 parse evs) \<noteq> Rejected e)"
    using parseBody2_invariant [of reader_init parse evs]
    by (simp add: parseBody2_def reader_init_def)
  have three: "body (parseBody3 parse evs) = concat (chunks_of evs) \<and>
      \<not> destroyed (parseBody3 parse evs) \<and>
      (\<forall>e. promise (parseBody3 parse evs) \<noteq> Rejected e)"
    using parseBody3_invariant [of reader_init parse evs]
    by (simp add: parseBody3_def reader_init_def)
  have within: "parseJSONBody parse (map Data cs)
        = \<lparr>body = concat cs, promise = Pending, destroyed = False\<rparr>"
    if "length (concat cs) \<le> 1000000"
    using parseJSONBody_data [of "[]" cs parse] that
    by (simp add: parseJSONBody_def reader_init_def)
  have beyond: "parseJSONBody parse (map Data (cs @ [c]) @ evs)
           = \<lparr>body = concat cs @ c, promise = Rejected ''Payload too large'',
              destroyed = True\<rparr>"
    if le: "length (concat cs) \<le> 1000000" and gt: "length (concat cs @ c) > 1000000"
  proof -
    have "parseJSONBody parse (map Data (cs @ [c]) @ evs)
        = foldl (parseJSONBody_step parse)
            (parseJSONBody_step parse (parseJSONBody parse (map Data cs)) (Data c)) evs"
      by (simp add: parseJSONBody_def)
    also have "parseJSONBody_step parse (parseJSONBody parse (map Data cs)) (Data c)
        = \<lparr>body = concat cs @ c, promise = Rejected ''Payload too large'', destroyed = True\<rparr>"
      using gt by (simp add: within [OF le] parseJSONBody_step_def settle_def)
    finally show ?thesis
      by (simp add: parseJSONBody_destroyed)
  qed
  from two three within beyond show ?thesis
    by blast
qed

theorem body_size_handling_witness:
  "body (parseBody3 JSON_parse [Data (replicate 2000000 CHR ''a''), End])
     = replicate 2000000 CHR ''a'' \<and>
   \<not> destroyed (parseBody2 JSON_parse [Data (replicate 2000000 CHR ''a''), End]) \<and>
   parseJSONBody JSON_parse (map Data [''[1,'', ''2]''])
     = \<lparr>body = ''[1,2]'', promise = Pending, destroyed = False\<rparr> \<and>
   parseJSONBody JSON_parse
       (map Data ([replicate 1000000 CHR ''a''] @ [''b'']) @ [Data ''c'', End])
     = \<lparr>body = replicate 1000000 CHR ''a'' @ ''b'',
        promise = Rejected ''Payload too large'', destroyed = True\<rparr>"
  using body_size_handling
      [of JSON_parse "[Data (replicate 2000000 CHR ''a''), End]" "[''[1,'', ''2]'']" "[]"]
    body_size_handling
      [of JSON_parse "[Data ''c'', End]" "[replicate 1000000 CHR ''a'']" "''b''"]
  by simp

text \<open>
  Claim C7 as stated fails on \<^verbatim>\<open>parseJSONBody\<close>: the second of two chunks of 600000 characters
  destroys the request and rejects the promise.
\<close>

theorem parseJSONBody_destroys_large_body:
  "parseJSONBody JSON_parse
       [Data (replicate 600000 CHR ''a''), Data (replicate 600000 CHR ''a'')]
     = \<lparr>body = replicate 600000 CHR ''a'' @ replicate 600000 CHR ''a'',
        promise = Rejected ''Payload too large'', destroyed = True\<rparr>"
  by (simp add: parseJSONBody_def reader_init_def parseJSONBody_step_def settle_def)

text \<open>
  Claim C9, as amended. The two \<^verbatim>\<open>Router.parseBody\<close> readers never reject, whatever the
  events. For a complete body that does not parse they resolve with \<^verbatim>\<open>{}\<close>, which is also
  what they resolve with for the empty body; for a body that parses they resolve with the
  parsed value, whatever its type.
\<close>

theorem parseBody_never_rejects:
  assumes "parse [] = None"
  shows "(\<forall>e. promise (parseBody2 parse evs) \<noteq> Rejected e) \<and>
         (\<forall>e. promise (parseBody3 parse evs) \<noteq> Rejected e) \<and>
         (parse (concat cs) = None \<longrightarrow>
            promise (parseBody2 parse (complete cs)) = Resolved empty_object \<and>
            promise (parseBody3 parse (complete cs)) = Resolved empty_object \<and>
            promise (parseBody2 parse (complete cs)) = promise (parseBody2 parse (complete [])) \<and>
            promise (parseBody3 parse (complete cs)) = promise (parseBody3 parse (complete []))) \<and>
         (\<forall>v. parse (concat cs) = Some v \<longrightarrow>
            promise (parseBody2 parse (complete cs)) = Resolved v \<and>
            promise (parseBody3 parse (complete cs)) = Resolved v)"
proof -
  have never2: "\<forall>e. promise (parseBody2 parse evs) \<noteq> Rejected e"
    using parseBody2_invariant [of reader_init parse evs]
    by (simp add: parseBody2_def reader_init_def)
  have never3: "\<forall>e. promise (parseBody3 parse evs) \<noteq> Rejected e"
    using parseBody3_invariant [of reader_init parse evs]
    by (simp add: parseBody3_def reader_init_def)
  have rest: "(parse (concat cs) = None \<longrightarrow>
            promise (parseBody2 parse (complete cs)) = Resolved empty_object \<and>
            promise (parseBody3 parse (complete cs)) = Resolved empty_object \<and>
            promise (parseBody2 parse (complete cs)) = promise (parseBody2 parse (complete [])) \<and>
            promise (parseBody3 parse (complete cs)) = promise (parseBody3 parse (complete []))) \<and>
         (\<forall>v. parse (concat cs) = Some v \<longrightarrow>
            promise (parseBody2 parse (complete cs)) = Resolved v \<and>
            promise (parseBody3 parse (complete cs)) = Resolved v)"
  proof (cases "concat cs = []")
    case True
    with assms show ?thesis
      by (simp add: parseBody2_complete parseBody3_complete del: concat_eq_Nil_conv)
  next
    case False
    with assms show ?thesis
      by (simp add: parseBody2_complete parseBody3_complete del: concat_eq_Nil_conv)
  qed
  from never2 never3 rest show ?thesis
    by blast
qed

theorem parseBody_never_rejects_witness:
  "JSON_parse [] = None \<and>
   (\<forall>e. promise (parseBody3 JSON_parse [Data ''{'', Error ''aborted'', End]) \<noteq> Rejected e) \<and>
   promise (parseBody2 JSON_parse (complete [''{'', ''[''])) = Resolved empty_object \<and>
   promise (parseBody3 JSON_parse (complete [''{'', ''[''])) = Resolved empty_object \<and>
   promise (parseBody3 JSON_parse (complete [''{'', ''['']))
     = promise (parseBody3 JSON_parse (complete []))"
proof -
  have p: "JSON_parse (concat [''{'', ''['']) = None"
    by code_simp
  show ?thesis
    using parseBody_never_rejects
        [of JSON_parse "[Data ''{'', Error ''aborted'', End]" "[''{'', ''['']",
          OF JSON_parse_empty] p
      JSON_parse_empty
    by blast
qed

text \<open>
  Claim C9 as stated fails where it says that the handler always receives an object: the
  bodies \<^verbatim>\<open>5\<close> and \<^verbatim>\<open>null\<close> are valid JSON, and the readers resolve with the number and with
  \<^verbatim>\<open>null\<close>.
\<close>

theorem parseBody_resolves_non_object:
  "promise (parseBody3 JSON_parse (complete [''5''])) = Resolved (JNum 5) \<and>
   promise (parseBody2 JSON_parse (complete [''nu'', ''ll''])) = Resolved JNull"
proof -
  have five: "JSON_parse ''5'' = Some (JNum 5)"
    by code_simp
  have null: "JSON_parse ''null'' = Some JNull"
    by code_simp
  from five null show ?thesis
    by (simp add: parseBody3_complete parseBody2_complete)
qed

section \<open>Properties of the notes API\<close>

lemma findIndex_None: "findIndex P xs = None \<longleftrightarrow> (\<forall>x\<in>set xs. \<not> P x)"
  by (induction xs) auto

lemma findIndex_Some:
  "findIndex P xs = Some i \<Longrightarrow> i < length xs \<and> P (xs ! i) \<and> (\<forall>j<i. \<not> P (xs ! j))"
proof (induction xs arbitrary: i)
  case Nil
  then show ?case by simp
next
  case (Cons x xs)
  show ?case
  proof (cases "P x")
    case True
    with Cons.prems show ?thesis by simp
  next
    case False
    with Cons.prems obtain k where k: "findIndex P xs = Some k" "i = Suc k"
      by auto
    from Cons.IH [OF k(1)] False k(2) show ?thesis
      by (auto simp: nth_Cons split: nat.splits)
  qed
qed

lemma find_has_id_None: "find P xs = None \<longleftrightarrow> (\<forall>x\<in>set xs. \<not> P x)"
  by (auto simp: find_None_iff)

lemma map_of_spread:
  "map_of (spread n us) k =
     (case map_of (rev us) k of Some v \<Rightarrow> Some v | None \<Rightarrow> map_of n k)"
  unfolding spread_def
  by (induction us arbitrary: n) (auto simp: update_conv' split: option.splits)

lemma map_of_rev_updates:
  "map_of (rev (updates_of b)) k = (if k \<in> set allowedFields then get_prop b k else None)"
  by (auto simp: updates_of_def allowedFields_def split: option.splits)

lemma map_of_filter_keys:
  "map_of (filter (\<lambda>(k, v). k \<in> S) ms) k = (if k \<in> S then map_of ms k else None)"
  by (induction ms) auto

lemma get_prop_only_allowed:
  "k \<in> set allowedFields \<Longrightarrow> get_prop (only_allowed b) k = get_prop b k"
  by (cases b) (simp_all add: only_allowed_def get_prop_def map_of_filter_keys)

lemma updates_of_only_allowed: "updates_of (only_allowed b) = updates_of b"
  unfolding updates_of_def
  by (rule arg_cong [where f = concat], rule map_cong) (simp_all add: get_prop_only_allowed)

lemma only_allowed_null: "only_allowed b = JNull \<longleftrightarrow> b = JNull"
  by (cases b) (simp_all add: only_allowed_def)

text \<open>
  Claim C3, as amended. When no stored note has the id, \<^verbatim>\<open>GET\<close>, \<^verbatim>\<open>PUT\<close>, \<^verbatim>\<open>PATCH\<close> and
  \<^verbatim>\<open>DELETE /notes/:id\<close> respond 404 with \<^verbatim>\<open>{ success: false, error: 'Note not found' }\<close>. When
  the body is not \<^verbatim>\<open>null\<close> and its title or content is missing or falsy, \<^verbatim>\<open>POST /notes\<close>
  responds 400, and so does \<^verbatim>\<open>PUT /notes/:id\<close> for an id that is in the store. In each of
  these cases the file afterwards is the file before.
\<close>

theorem failure_responses_leave_file:
  "((\<forall>n\<in>set (readNotes f). \<not> has_id i n) \<longrightarrow>
      get_note i f = (Respond 404 not_found, f) \<and>
      put_note t i b f = (Respond 404 not_found, f) \<and>
      patch_note t i b f = (Respond 404 not_found, f) \<and>
      delete_note i f = (Respond 404 not_found, f)) \<and>
   (b \<noteq> JNull \<and> (\<not> truthy (get_prop b ''title'') \<or> \<not> truthy (get_prop b ''content'')) \<longrightarrow>
      post_notes nid t1 t2 b f
        = (Respond 400 (JObj [(''success'', JBool False),
                              (''error'', JStr ''Title and content are required'')]), f) \<and>
      ((\<exists>n\<in>set (readNotes f). has_id i n) \<longrightarrow>
         put_note t i b f
           = (Respond 400 (JObj [(''success'', JBool False),
                                 (''error'', JStr ''Title and content are required for PUT'')]), f)))"
proof -
  have absent: "get_note i f = (Respond 404 not_found, f) \<and>
      put_note t i b f = (Respond 404 not_found, f) \<and>
      patch_note t i b f = (Respond 404 not_found, f) \<and>
      delete_note i f = (Respond 404 not_found, f)"
    if "\<forall>n\<in>set (readNotes f). \<not> has_id i n"
  proof -
    from that have "find (has_id i) (readNotes f) = None"
      and "findIndex (has_id i) (readNotes f) = None"
      by (simp_all add: find_has_id_None findIndex_None)
    then show ?thesis
      by (simp add: get_note_def put_note_def patch_note_def delete_note_def)
  qed
  have post: "post_notes nid t1 t2 b f
        = (Respond 400 (JObj [(''success'', JBool False),
                              (''error'', JStr ''Title and content are required'')]), f)"
    if "b \<noteq> JNull" "\<not> truthy (get_prop b ''title'') \<or> \<not> truthy (get_prop b ''content'')"
    using that by (auto simp: post_notes_def)
  have put: "put_note t i b f
           = (Respond 400 (JObj [(''success'', JBool False),
                                 (''error'', JStr ''Title and content are required for PUT'')]), f)"
    if "b \<noteq> JNull" "\<not> truthy (get_prop b ''title'') \<or> \<not> truthy (get_prop b ''content'')"
      "\<exists>n\<in>set (readNotes f). has_id i n"
  proof -
    from that(3) obtain ix where "findIndex (has_id i) (readNotes f) = Some ix"
      using findIndex_None [of "has_id i" "readNotes f"] by auto
    with that(1,2) show ?thesis
      by (auto simp: put_note_def)
  qed
  from absent post put show ?thesis
    by blast
qed

text \<open>
  Claim C10. \<^verbatim>\<open>PATCH /notes/:id\<close> on a stored note: with a \<^verbatim>\<open>null\<close> body the handler throws and
  the file is untouched; otherwise the file holds the same array with the note at the index
  found replaced by a note that has the same \<^verbatim>\<open>id\<close> and \<^verbatim>\<open>createdAt\<close>, the same value for every
  field other than \<^verbatim>\<open>title\<close>, \<^verbatim>\<open>content\<close>, \<^verbatim>\<open>tags\<close> and \<^verbatim>\<open>updatedAt\<close>, the body's value for each of
  \<^verbatim>\<open>title\<close>, \<^verbatim>\<open>content\<close>, \<^verbatim>\<open>tags\<close> that the body defines (the old value otherwise), and the new
  \<^verbatim>\<open>updatedAt\<close>; every other note is unchanged, and the body's other fields are ignored: the
  handler does the same on the body restricted to the allowed fields.
\<close>

theorem patch_changes_only_allowed_fields:
  assumes "findIndex (has_id i) (readNotes f) = Some ix"
  shows "(b = JNull \<longrightarrow> patch_note t i b f = (Throws, f)) \<and>
         (b \<noteq> JNull \<longrightarrow>
            (\<exists>n. patch_note t i b f
                    = (Respond 200 (success n), Holds ((readNotes f)[ix := n])) \<and>
                 map_of n ''id'' = map_of (readNotes f ! ix) ''id'' \<and>
                 map_of n ''createdAt'' = map_of (readNotes f ! ix) ''createdAt'' \<and>
                 (\<forall>k. k \<notin> set allowedFields \<and> k \<noteq> ''updatedAt'' \<longrightarrow>
                        map_of n k = map_of (readNotes f ! ix) k) \<and>
                 (\<forall>k\<in>set allowedFields.
                    map_of n k = (case get_prop b k of
                                    Some v \<Rightarrow> Some v
                                  | None \<Rightarrow> map_of (readNotes f ! ix) k)) \<and>
                 map_of n ''updatedAt'' = Some (JStr t) \<and>
                 length ((readNotes f)[ix := n]) = length (readNotes f) \<and>
                 (\<forall>j. j \<noteq> ix \<longrightarrow> (readNotes f)[ix := n] ! j = readNotes f ! j))) \<and>
         patch_note t i (only_allowed b) f = patch_note t i b f"
proof -
  let ?n = "AList.update ''updatedAt'' (JStr t) (spread (readNotes f ! ix) (updates_of b))"
  have lookup: "map_of ?n k =
      (if k = ''updatedAt'' then Some (JStr t)
       else if k \<in> set allowedFields
         then (case get_prop b k of Some v \<Rightarrow> Some v | None \<Rightarrow> map_of (readNotes f ! ix) k)
         else map_of (readNotes f ! ix) k)" for k
    by (simp add: update_conv' map_of_spread map_of_rev_updates)
  have run: "patch_note t i b f = (Respond 200 (success ?n), Holds ((readNotes f)[ix := ?n]))"
    if "b \<noteq> JNull"
    using assms that by (simp add: patch_note_def writeNotes_def Let_def)
  have frame: "map_of ?n ''id'' = map_of (readNotes f ! ix) ''id''"
    "map_of ?n ''createdAt'' = map_of (readNotes f ! ix) ''createdAt''"
    "map_of ?n ''updatedAt'' = Some (JStr t)"
    "\<forall>k. k \<notin> set allowedFields \<and> k \<noteq> ''updatedAt'' \<longrightarrow> map_of ?n k = map_of (readNotes f ! ix) k"
    "\<forall>k\<in>set allowedFields.
        map_of ?n k = (case get_prop b k of Some v \<Rightarrow> Some v | None \<Rightarrow> map_of (readNotes f ! ix) k)"
    by (simp_all add: lookup allowedFields_def)
  have ignore: "patch_note t i (only_allowed b) f = patch_note t i b f"
    by (simp add: patch_note_def updates_of_only_allowed only_allowed_null Let_def
        split: option.splits)
  have null: "patch_note t i b f = (Throws, f)" if "b = JNull"
    using assms that by (simp add: patch_note_def)
  from run frame ignore null show ?thesis
    by (intro conjI impI) (auto intro!: exI [of _ ?n])
qed


theorem failure_responses_leave_file_witness:
  "get_note ''zz'' (Holds [[(''id'', JStr ''a1''), (''title'', JStr ''T'')]])
     = (Respond 404 not_found, Holds [[(''id'', JStr ''a1''), (''title'', JStr ''T'')]]) \<and>
   delete_note ''zz'' (Holds [[(''id'', JStr ''a1''), (''title'', JStr ''T'')]])
     = (Respond 404 not_found, Holds [[(''id'', JStr ''a1''), (''title'', JStr ''T'')]]) \<and>
   patch_note ''t9'' ''zz'' (JObj [(''title'', JStr ''x'')]) Unreadable
     = (Respond 404 not_found, Unreadable) \<and>
   post_notes ''k'' ''t1'' ''t2'' (JObj [(''title'', JStr ''x'')])
       (Holds [[(''id'', JStr ''a1''), (''title'', JStr ''T'')]])
     = (Respond 400 (JObj [(''success'', JBool False),
                           (''error'', JStr ''Title and content are required'')]),
        Holds [[(''id'', JStr ''a1''), (''title'', JStr ''T'')]]) \<and>
   put_note ''t9'' ''a1'' (JObj [(''title'', JStr ''x'')])
       (Holds [[(''id'', JStr ''a1''), (''title'', JStr ''T'')]])
     = (Respond 400 (JObj [(''success'', JBool False),
                           (''error'', JStr ''Title and content are required for PUT'')]),
        Holds [[(''id'', JStr ''a1''), (''title'', JStr ''T'')]])"
  using failure_responses_leave_file
      [of "Holds [[(''id'', JStr ''a1''), (''title'', JStr ''T'')]]" "''zz''" "''t9''"
        "JObj [(''title'', JStr ''x'')]" "''k''" "''t1''" "''t2''"]
    failure_responses_leave_file
      [of "Holds [[(''id'', JStr ''a1''), (''title'', JStr ''T'')]]" "''a1''" "''t9''"
        "JObj [(''title'', JStr ''x'')]" "''k''" "''t1''" "''t2''"]
    failure_responses_leave_file
      [of Unreadable "''zz''" "''t9''" "JObj [(''title'', JStr ''x'')]" "''k''" "''t1''" "''t2''"]
  by (simp add: readNotes_def has_id_def get_prop_def)

text \<open>
  Claim C3 as stated fails for \<^verbatim>\<open>PUT\<close>: the id is looked up before the body is validated, so a
  \<^verbatim>\<open>PUT\<close> whose body lacks title and content, for an id that is not stored, is answered 404
  and not 400.
\<close>

theorem put_absent_id_is_404:
  "put_note ''t9'' ''zz'' (JObj []) (Holds [[(''id'', JStr ''a1''), (''title'', JStr ''T'')]])
     = (Respond 404 not_found, Holds [[(''id'', JStr ''a1''), (''title'', JStr ''T'')]])"
  by (simp add: put_note_def readNotes_def has_id_def)

text \<open>
  Claim C4. What \<^verbatim>\<open>writeNotes\<close> writes is what \<^verbatim>\<open>readNotes\<close> reads back. A \<^verbatim>\<open>POST\<close> whose body has
  a non-empty string for title and for content responds 201 with the new note and leaves
  the file holding the array read with that note appended. A \<^verbatim>\<open>PUT\<close> with such a body, for
  an id found at an index, responds 200 with the note at that index given the trimmed
  title and content, the tags and the new \<^verbatim>\<open>updatedAt\<close> (every other field kept), and leaves
  the file holding the array read with that note at the index and every other note as it
  was. A \<^verbatim>\<open>PATCH\<close> with a body other than \<^verbatim>\<open>null\<close>, for an id found, does so with the note that
  has the body's allowed fields spread over it and the new \<^verbatim>\<open>updatedAt\<close>. A \<^verbatim>\<open>DELETE\<close> for an
  id found responds 200 with the note found and leaves the file holding the array read
  without it. And each mutating handler does nothing else: it either leaves the file as it
  was (and responds 400 or 404, or throws), or responds with success and leaves the file
  holding the array it read with that single change.
\<close>

theorem mutations_rewrite_whole_file:
  "readNotes (writeNotes ns) = ns \<and>
   (get_prop b ''title'' = Some (JStr ti) \<and> ti \<noteq> [] \<and>
    get_prop b ''content'' = Some (JStr co) \<and> co \<noteq> [] \<longrightarrow>
      post_notes nid t1 t2 b f
        = (Respond 201
             (success [(''id'', JStr nid), (''title'', JStr (trim ti)),
                       (''content'', JStr (trim co)),
                       (''tags'', as_array (case get_prop b ''tags'' of
                                              None \<Rightarrow> JArr []
                                            | Some v \<Rightarrow> v)),
                       (''createdAt'', JStr t1), (''updatedAt'', JStr t2)]),
           writeNotes
             (readNotes f @
              [[(''id'', JStr nid), (''title'', JStr (trim ti)),
                (''content'', JStr (trim co)),
                (''tags'', as_array (case get_prop b ''tags'' of
                                       None \<Rightarrow> JArr []
                                     | Some v \<Rightarrow> v)),
                (''createdAt'', JStr t1), (''updatedAt'', JStr t2)]]))) \<and>
   (findIndex (has_id i) (readNotes f) = Some ix \<and>
    get_prop b ''title'' = Some (JStr ti) \<and> ti \<noteq> [] \<and>
    get_prop b ''content'' = Some (JStr co) \<and> co \<noteq> [] \<longrightarrow>
      (\<exists>n. put_note t i b f
              = (Respond 200 (success n), writeNotes ((readNotes f)[ix := n])) \<and>
           n = AList.update ''updatedAt'' (JStr t)
                 (AList.update ''tags''
                    (as_array (case get_prop b ''tags'' of None \<Rightarrow> JArr [] | Some v \<Rightarrow> v))
                    (AList.update ''content'' (JStr (trim co))
                       (AList.update ''title'' (JStr (trim ti)) (readNotes f ! ix)))) \<and>
           map_of n ''title'' = Some (JStr (trim ti)) \<and>
           map_of n ''content'' = Some (JStr (trim co)) \<and>
           map_of n ''tags''
             = Some (as_array (case get_prop b ''tags'' of None \<Rightarrow> JArr [] | Some v \<Rightarrow> v)) \<and>
           map_of n ''updatedAt'' = Some (JStr t) \<and>
           (\<forall>k. k \<notin> {''title'', ''content'', ''tags'', ''updatedAt''} \<longrightarrow>
                  map_of n k = map_of (readNotes f ! ix) k) \<and>
           length (readNotes (writeNotes ((readNotes f)[ix := n]))) = length (readNotes f) \<and>
           readNotes (writeNotes ((readNotes f)[ix := n])) ! ix = n \<and>
           (\<forall>j. j \<noteq> ix \<longrightarrow>
                  readNotes (writeNotes ((readNotes f)[ix := n])) ! j = readNotes f ! j))) \<and>
   (findIndex (has_id i) (readNotes f) = Some ix \<and> b \<noteq> JNull \<longrightarrow>
      patch_note t i b f
        = (Respond 200
             (success (AList.update ''updatedAt'' (JStr t)
                         (spread (readNotes f ! ix) (updates_of b)))),
           writeNotes
             ((readNotes f)
                [ix := AList.update ''updatedAt'' (JStr t)
                         (spread (readNotes f ! ix) (updates_of b))]))) \<and>
   (findIndex (has_id i) (readNotes f) = Some ix \<longrightarrow>
      delete_note i f
        = (Respond 200 (JObj [(''success'', JBool True), (''data'', JObj (readNotes f ! ix)),
                              (''message'', JStr ''Note deleted'')]),
           writeNotes (take ix (readNotes f) @ drop (Suc ix) (readNotes f))) \<and>
      length (take ix (readNotes f) @ drop (Suc ix) (readNotes f)) + 1
        = length (readNotes f)) \<and>
   (\<forall>r f'. post_notes nid t1 t2 b f = (r, f') \<longrightarrow>
      (f' = f \<and> (r = Throws \<or> (\<exists>d. r = Respond 400 d))) \<or>
      (\<exists>n. r = Respond 201 (success n) \<and> f' = writeNotes (readNotes f @ [n]))) \<and>
   (\<forall>r f'. put_note t i b f = (r, f') \<longrightarrow>
      (f' = f \<and> (r = Throws \<or> (\<exists>d. r = Respond 400 d \<or> r = Respond 404 d))) \<or>
      (\<exists>ix n. findIndex (has_id i) (readNotes f) = Some ix \<and>
         r = Respond 200 (success n) \<and> f' = writeNotes ((readNotes f)[ix := n]))) \<and>
   (\<forall>r f'. patch_note t i b f = (r, f') \<longrightarrow>
      (f' = f \<and> (r = Throws \<or> (\<exists>d. r = Respond 404 d))) \<or>
      (\<exists>ix n. findIndex (has_id i) (readNotes f) = Some ix \<and>
         r = Respond 200 (success n) \<and> f' = writeNotes ((readNotes f)[ix := n]))) \<and>
   (\<forall>r f'. delete_note i f = (r, f') \<longrightarrow>
      (f' = f \<and> (\<exists>d. r = Respond 404 d)) \<or>
      (\<exists>ix. findIndex (has_id i) (readNotes f) = Some ix \<and>
         r = Respond 200 (JObj [(''success'', JBool True), (''data'', JObj (readNotes f ! ix)),
                                (''message'', JStr ''Note deleted'')]) \<and>
         f' = writeNotes (take ix (readNotes f) @ drop (Suc ix) (readNotes f))))"
proof -
  let ?tags = "as_array (case get_prop b ''tags'' of None \<Rightarrow> JArr [] | Some v \<Rightarrow> v)"
  let ?new = "[(''id'', JStr nid), (''title'', JStr (trim ti)), (''content'', JStr (trim co)),
               (''tags'', ?tags), (''createdAt'', JStr t1), (''updatedAt'', JStr t2)]"
  let ?put = "AList.update ''updatedAt'' (JStr t)
                (AList.update ''tags'' ?tags
                   (AList.update ''content'' (JStr (trim co))
                      (AList.update ''title'' (JStr (trim ti)) (readNotes f ! ix))))"
  let ?patch = "AList.update ''updatedAt'' (JStr t) (spread (readNotes f ! ix) (updates_of b))"
  have rw: "readNotes (writeNotes ns) = ns" for ns
    by (simp add: readNotes_def writeNotes_def)
  have body: "b \<noteq> JNull" if "get_prop b ''title'' = Some (JStr ti)"
    using that by (auto simp: get_prop_def)
  have post_ok: "post_notes nid t1 t2 b f
      = (Respond 201 (success ?new), writeNotes (readNotes f @ [?new]))"
    if "get_prop b ''title'' = Some (JStr ti)" "ti \<noteq> []"
      "get_prop b ''content'' = Some (JStr co)" "co \<noteq> []"
    using that body [OF that(1)] by (simp add: post_notes_def Let_def)
  have put_ok: "put_note t i b f
      = (Respond 200 (success ?put), writeNotes ((readNotes f)[ix := ?put]))"
    if "findIndex (has_id i) (readNotes f) = Some ix"
      "get_prop b ''title'' = Some (JStr ti)" "ti \<noteq> []"
      "get_prop b ''content'' = Some (JStr co)" "co \<noteq> []"
    using that body [OF that(2)] by (simp add: put_note_def Let_def)
  have put_fields: "map_of ?put ''title'' = Some (JStr (trim ti))"
    "map_of ?put ''content'' = Some (JStr (trim co))"
    "map_of ?put ''tags'' = Some ?tags"
    "map_of ?put ''updatedAt'' = Some (JStr t)"
    "\<forall>k. k \<notin> {''title'', ''content'', ''tags'', ''updatedAt''} \<longrightarrow>
        map_of ?put k = map_of (readNotes f ! ix) k"
    by (simp_all add: update_conv')
  have put_array: "length (readNotes (writeNotes ((readNotes f)[ix := ?put])))
        = length (readNotes f)"
    "readNotes (writeNotes ((readNotes f)[ix := ?put])) ! ix = ?put"
    "\<forall>j. j \<noteq> ix \<longrightarrow> readNotes (writeNotes ((readNotes f)[ix := ?put])) ! j = readNotes f ! j"
    if "findIndex (has_id i) (readNotes f) = Some ix"
    using findIndex_Some [OF that] by (simp_all add: rw)
  have put_all: "\<exists>n. put_note t i b f
              = (Respond 200 (success n), writeNotes ((readNotes f)[ix := n])) \<and>
           n = ?put \<and>
           map_of n ''title'' = Some (JStr (trim ti)) \<and>
           map_of n ''content'' = Some (JStr (trim co)) \<and>
           map_of n ''tags'' = Some ?tags \<and>
           map_of n ''updatedAt'' = Some (JStr t) \<and>
           (\<forall>k. k \<notin> {''title'', ''content'', ''tags'', ''updatedAt''} \<longrightarrow>
                  map_of n k = map_of (readNotes f ! ix) k) \<and>
           length (readNotes (writeNotes ((readNotes f)[ix := n]))) = length (readNotes f) \<and>
           readNotes (writeNotes ((readNotes f)[ix := n])) ! ix = n \<and>
           (\<forall>j. j \<noteq> ix \<longrightarrow>
                  readNotes (writeNotes ((readNotes f)[ix := n])) ! j = readNotes f ! j)"
    if "findIndex (has_id i) (readNotes f) = Some ix"
      "get_prop b ''title'' = Some (JStr ti)" "ti \<noteq> []"
      "get_prop b ''content'' = Some (JStr co)" "co \<noteq> []"
    using put_ok [OF that] put_fields put_array [OF that(1)]
    by (intro exI [of _ ?put] conjI) simp_all
  have patch_ok: "patch_note t i b f
      = (Respond 200 (success ?patch), writeNotes ((readNotes f)[ix := ?patch]))"
    if "findIndex (has_id i) (readNotes f) = Some ix" "b \<noteq> JNull"
    using that by (simp add: patch_note_def Let_def)
  have del_ok: "delete_note i f
        = (Respond 200 (JObj [(''success'', JBool True), (''data'', JObj (readNotes f ! ix)),
                              (''message'', JStr ''Note deleted'')]),
           writeNotes (take ix (readNotes f) @ drop (Suc ix) (readNotes f))) \<and>
      length (take ix (readNotes f) @ drop (Suc ix) (readNotes f)) + 1
        = length (readNotes f)"
    if "findIndex (has_id i) (readNotes f) = Some ix"
    using that findIndex_Some [OF that] by (auto simp: delete_note_def Let_def)
  have post: "(f' = f \<and> (r = Throws \<or> (\<exists>d. r = Respond 400 d))) \<or>
      (\<exists>n. r = Respond 201 (success n) \<and> f' = writeNotes (readNotes f @ [n]))"
    if "post_notes nid t1 t2 b f = (r, f')" for r f'
    using that
    by (auto simp: post_notes_def Let_def split: if_splits option.splits json.splits)
  have put: "(f' = f \<and> (r = Throws \<or> (\<exists>d. r = Respond 400 d \<or> r = Respond 404 d))) \<or>
      (\<exists>ix n. findIndex (has_id i) (readNotes f) = Some ix \<and>
         r = Respond 200 (success n) \<and> f' = writeNotes ((readNotes f)[ix := n]))"
    if "put_note t i b f = (r, f')" for r f'
    using that
    by (auto simp: put_note_def Let_def split: if_splits option.splits json.splits)
  have patch: "(f' = f \<and> (r = Throws \<or> (\<exists>d. r = Respond 404 d))) \<or>
      (\<exists>ix n. findIndex (has_id i) (readNotes f) = Some ix \<and>
         r = Respond 200 (success n) \<and> f' = writeNotes ((readNotes f)[ix := n]))"
    if "patch_note t i b f = (r, f')" for r f'
    using that
    by (auto simp: patch_note_def Let_def split: if_splits option.splits)
  have del: "(f' = f \<and> (\<exists>d. r = Respond 404 d)) \<or>
      (\<exists>ix. findIndex (has_id i) (readNotes f) = Some ix \<and>
         r = Respond 200 (JObj [(''success'', JBool True), (''data'', JObj (readNotes f ! ix)),
                                (''message'', JStr ''Note deleted'')]) \<and>
         f' = writeNotes (take ix (readNotes f) @ drop (Suc ix) (readNotes f)))"
    if "delete_note i f = (r, f')" for r f'
    using that
    by (auto simp: delete_note_def Let_def split: option.splits)
  show ?thesis
  proof (intro conjI)
    show "readNotes (writeNotes ns) = ns"
      by (rule rw)
  next
    show "get_prop b ''title'' = Some (JStr ti) \<and> ti \<noteq> [] \<and>
        get_prop b ''content'' = Some (JStr co) \<and> co \<noteq> [] \<longrightarrow>
        post_notes nid t1 t2 b f
          = (Respond 201 (success ?new), writeNotes (readNotes f @ [?new]))"
      using post_ok by blast
  next
    show "findIndex (has_id i) (readNotes f) = Some ix \<and>
        get_prop b ''title'' = Some (JStr ti) \<and> ti \<noteq> [] \<and>
        get_prop b ''content'' = Some (JStr co) \<and> co \<noteq> [] \<longrightarrow>
        (\<exists>n. put_note t i b f
              = (Respond 200 (success n), writeNotes ((readNotes f)[ix := n])) \<and>
           n = ?put \<and>
           map_of n ''title'' = Some (JStr (trim ti)) \<and>
           map_of n ''content'' = Some (JStr (trim co)) \<and>
           map_of n ''tags'' = Some ?tags \<and>
           map_of n ''updatedAt'' = Some (JStr t) \<and>
           (\<forall>k. k \<notin> {''title'', ''content'', ''tags'', ''updatedAt''} \<longrightarrow>
                  map_of n k = map_of (readNotes f ! ix) k) \<and>
           length (readNotes (writeNotes ((readNotes f)[ix := n]))) = length (readNotes f) \<and>
           readNotes (writeNotes ((readNotes f)[ix := n])) ! ix = n \<and>
           (\<forall>j. j \<noteq> ix \<longrightarrow>
                  readNotes (writeNotes ((readNotes f)[ix := n])) ! j = readNotes f ! j))"
      using put_all by blast
  next
    show "findIndex (has_id i) (readNotes f) = Some ix \<and> b \<noteq> JNull \<longrightarrow>
        patch_note t i b f
          = (Respond 200 (success ?patch), writeNotes ((readNotes f)[ix := ?patch]))"
      using patch_ok by blast
  next
    show "findIndex (has_id i) (readNotes f) = Some ix \<longrightarrow>
      delete_note i f
        = (Respond 200 (JObj [(''success'', JBool True), (''data'', JObj (readNotes f ! ix)),
                              (''message'', JStr ''Note deleted'')]),
           writeNotes (take ix (readNotes f) @ drop (Suc ix) (readNotes f))) \<and>
      length (take ix (readNotes f) @ drop (Suc ix) (readNotes f)) + 1
        = length (readNotes f)"
      using del_ok by blast
  next
    show "\<forall>r f'. post_notes nid t1 t2 b f = (r, f') \<longrightarrow>
      (f' = f \<and> (r = Throws \<or> (\<exists>d. r = Respond 400 d))) \<or>
      (\<exists>n. r = Respond 201 (success n) \<and> f' = writeNotes (readNotes f @ [n]))"
      using post by blast
  next
    show "\<forall>r f'. put_note t i b f = (r, f') \<longrightarrow>
      (f' = f \<and> (r = Throws \<or> (\<exists>d. r = Respond 400 d \<or> r = Respond 404 d))) \<or>
      (\<exists>ix n. findIndex (has_id i) (readNotes f) = Some ix \<and>
         r = Respond 200 (success n) \<and> f' = writeNotes ((readNotes f)[ix := n]))"
      using put by blast
  next
    show "\<forall>r f'. patch_note t i b f = (r, f') \<longrightarrow>
      (f' = f \<and> (r = Throws \<or> (\<exists>d. r = Respond 404 d))) \<or>
      (\<exists>ix n. findIndex (has_id i) (readNotes f) = Some ix \<and>
         r = Respond 200 (success n) \<and> f' = writeNotes ((readNotes f)[ix := n]))"
      using patch by blast
  next
    show "\<forall>r f'. delete_note i f = (r, f') \<longrightarrow>
      (f' = f \<and> (\<exists>d. r = Respond 404 d)) \<or>
      (\<exists>ix. findIndex (has_id i) (readNotes f) = Some ix \<and>
         r = Respond 200 (JObj [(''success'', JBool True), (''data'', JObj (readNotes f ! ix)),
                                (''message'', JStr ''Note deleted'')]) \<and>
         f' = writeNotes (take ix (readNotes f) @ drop (Suc ix) (readNotes f)))"
      using del by blast
  qed
qed

theorem mutations_rewrite_whole_file_witness:
  "findIndex (has_id ''b2'')
     (readNotes (Holds [[(''id'', JStr ''a1'')],
                        [(''id'', JStr ''b2''), (''title'', JStr ''Old''),
                         (''createdAt'', JStr ''t0'')]])) = Some 1 \<and>
   put_note ''t9'' ''b2''
       (JObj [(''title'', JStr '' New ''), (''content'', JStr ''c''), (''tags'', JStr ''x'')])
       (Holds [[(''id'', JStr ''a1'')],
               [(''id'', JStr ''b2''), (''title'', JStr ''Old''), (''createdAt'', JStr ''t0'')]])
     = (Respond 200
          (success [(''id'', JStr ''b2''), (''title'', JStr ''New''),
                    (''createdAt'', JStr ''t0''), (''content'', JStr ''c''),
                    (''tags'', JArr [JStr ''x'']), (''updatedAt'', JStr ''t9'')]),
        Holds [[(''id'', JStr ''a1'')],
               [(''id'', JStr ''b2''), (''title'', JStr ''New''),
                (''createdAt'', JStr ''t0''), (''content'', JStr ''c''),
                (''tags'', JArr [JStr ''x'']), (''updatedAt'', JStr ''t9'')]]) \<and>
   post_notes ''k'' ''t1'' ''t2'' (JObj [(''title'', JStr '' a ''), (''content'', JStr ''b'')])
       Unreadable
     = (Respond 201
          (success [(''id'', JStr ''k''), (''title'', JStr ''a''), (''content'', JStr ''b''),
                    (''tags'', JArr []), (''createdAt'', JStr ''t1''),
                    (''updatedAt'', JStr ''t2'')]),
        Holds [[(''id'', JStr ''k''), (''title'', JStr ''a''), (''content'', JStr ''b''),
                (''tags'', JArr []), (''createdAt'', JStr ''t1''),
                (''updatedAt'', JStr ''t2'')]]) \<and>
   patch_note ''t9'' ''b2'' (JObj [(''title'', JStr ''N'')])
       (Holds [[(''id'', JStr ''a1'')],
               [(''id'', JStr ''b2''), (''title'', JStr ''Old''), (''createdAt'', JStr ''t0'')]])
     = (Respond 200
          (success [(''id'', JStr ''b2''), (''title'', JStr ''N''),
                    (''createdAt'', JStr ''t0''), (''updatedAt'', JStr ''t9'')]),
        Holds [[(''id'', JStr ''a1'')],
               [(''id'', JStr ''b2''), (''title'', JStr ''N''),
                (''createdAt'', JStr ''t0''), (''updatedAt'', JStr ''t9'')]]) \<and>
   delete_note ''b2''
       (Holds [[(''id'', JStr ''a1'')],
               [(''id'', JStr ''b2''), (''title'', JStr ''Old''), (''createdAt'', JStr ''t0'')]])
     = (Respond 200
          (JObj [(''success'', JBool True),
                 (''data'', JObj [(''id'', JStr ''b2''), (''title'', JStr ''Old''),
                                  (''createdAt'', JStr ''t0'')]),
                 (''message'', JStr ''Note deleted'')]),
        Holds [[(''id'', JStr ''a1'')]])"
proof -
  let ?f = "Holds [[(''id'', JStr ''a1'')],
                   [(''id'', JStr ''b2''), (''title'', JStr ''Old''),
                    (''createdAt'', JStr ''t0'')]]"
  let ?put = "JObj [(''title'', JStr '' New ''), (''content'', JStr ''c''),
                    (''tags'', JStr ''x'')]"
  let ?post = "JObj [(''title'', JStr '' a ''), (''content'', JStr ''b'')]"
  let ?patch = "JObj [(''title'', JStr ''N'')]"
  have found: "findIndex (has_id ''b2'') (readNotes ?f) = Some 1"
    by (simp add: readNotes_def has_id_def)
  have put_body: "get_prop ?put ''title'' = Some (JStr '' New '')" "'' New '' \<noteq> []"
    "get_prop ?put ''content'' = Some (JStr ''c'')" "''c'' \<noteq> []"
    by (simp_all add: get_prop_def)
  have post_body: "get_prop ?post ''title'' = Some (JStr '' a '')" "'' a '' \<noteq> []"
    "get_prop ?post ''content'' = Some (JStr ''b'')" "''b'' \<noteq> []"
    by (simp_all add: get_prop_def)
  have not_null: "?patch \<noteq> JNull"
    by simp
  from mutations_rewrite_whole_file
    [where f = ?f and i = "''b2''" and ix = 1 and b = ?put and ti = "'' New ''"
      and co = "''c''" and t = "''t9''" and ns = "[]" and nid = "''k''" and ?t1.0 = "''t1''"
      and ?t2.0 = "''t2''"]
    found put_body
  have put: "put_note ''t9'' ''b2'' ?put ?f
      = (Respond 200
           (success (AList.update ''updatedAt'' (JStr ''t9'')
              (AList.update ''tags''
                 (as_array (case get_prop ?put ''tags'' of None \<Rightarrow> JArr [] | Some v \<Rightarrow> v))
                 (AList.update ''content'' (JStr (trim ''c''))
                    (AList.update ''title'' (JStr (trim '' New '')) (readNotes ?f ! 1)))))),
         writeNotes ((readNotes ?f)
           [1 := AList.update ''updatedAt'' (JStr ''t9'')
              (AList.update ''tags''
                 (as_array (case get_prop ?put ''tags'' of None \<Rightarrow> JArr [] | Some v \<Rightarrow> v))
                 (AList.update ''content'' (JStr (trim ''c''))
                    (AList.update ''title'' (JStr (trim '' New '')) (readNotes ?f ! 1))))]))"
    by blast
  from mutations_rewrite_whole_file
    [where f = Unreadable and i = "''b2''" and ix = 1 and b = ?post and ti = "'' a ''"
      and co = "''b''" and t = "''t9''" and ns = "[]" and nid = "''k''" and ?t1.0 = "''t1''"
      and ?t2.0 = "''t2''"]
    post_body
  have post: "post_notes ''k'' ''t1'' ''t2'' ?post Unreadable
      = (Respond 201
           (success [(''id'', JStr ''k''), (''title'', JStr (trim '' a '')),
                     (''content'', JStr (trim ''b'')),
                     (''tags'', as_array (case get_prop ?post ''tags'' of
                                            None \<Rightarrow> JArr []
                                          | Some v \<Rightarrow> v)),
                     (''createdAt'', JStr ''t1''), (''updatedAt'', JStr ''t2'')]),
         writeNotes
           (readNotes Unreadable @
            [[(''id'', JStr ''k''), (''title'', JStr (trim '' a '')),
              (''content'', JStr (trim ''b'')),
              (''tags'', as_array (case get_prop ?post ''tags'' of
                                     None \<Rightarrow> JArr []
                                   | Some v \<Rightarrow> v)),
              (''createdAt'', JStr ''t1''), (''updatedAt'', JStr ''t2'')]]))"
    by blast
  from mutations_rewrite_whole_file
    [where f = ?f and i = "''b2''" and ix = 1 and b = ?patch and ti = "''N''"
      and co = "''c''" and t = "''t9''" and ns = "[]" and nid = "''k''" and ?t1.0 = "''t1''"
      and ?t2.0 = "''t2''"]
    found not_null
  have patch: "patch_note ''t9'' ''b2'' ?patch ?f
      = (Respond 200
           (success (AList.update ''updatedAt'' (JStr ''t9'')
                       (spread (readNotes ?f ! 1) (updates_of ?patch)))),
         writeNotes
           ((readNotes ?f)
              [1 := AList.update ''updatedAt'' (JStr ''t9'')
                      (spread (readNotes ?f ! 1) (updates_of ?patch))]))"
    and del: "delete_note ''b2'' ?f
      = (Respond 200 (JObj [(''success'', JBool True), (''data'', JObj (readNotes ?f ! 1)),
                            (''message'', JStr ''Note deleted'')]),
         writeNotes (take 1 (readNotes ?f) @ drop (Suc 1) (readNotes ?f)))"
    by blast+
  show ?thesis
    by (simp add: put post patch del readNotes_def writeNotes_def get_prop_def has_id_def
        success_def trim_def js_space_def as_array_def updates_of_def allowedFields_def
        spread_def)
qed

theorem patch_changes_only_allowed_fields_witness:
  "findIndex (has_id ''b2'')
     (readNotes (Holds [[(''id'', JStr ''a1'')],
                        [(''id'', JStr ''b2''), (''createdAt'', JStr ''t0'')]])) = Some 1 \<and>
   patch_note ''t9'' ''b2'' (JObj [(''title'', JStr ''N''), (''id'', JStr ''hack'')])
       (Holds [[(''id'', JStr ''a1'')], [(''id'', JStr ''b2''), (''createdAt'', JStr ''t0'')]])
     = (Respond 200
          (success [(''id'', JStr ''b2''), (''createdAt'', JStr ''t0''), (''title'', JStr ''N''),
                    (''updatedAt'', JStr ''t9'')]),
        Holds [[(''id'', JStr ''a1'')],
               [(''id'', JStr ''b2''), (''createdAt'', JStr ''t0''), (''title'', JStr ''N''),
                (''updatedAt'', JStr ''t9'')]]) \<and>
   patch_note ''t9'' ''b2''
       (only_allowed (JObj [(''title'', JStr ''N''), (''id'', JStr ''hack'')]))
       (Holds [[(''id'', JStr ''a1'')], [(''id'', JStr ''b2''), (''createdAt'', JStr ''t0'')]])
     = patch_note ''t9'' ''b2'' (JObj [(''title'', JStr ''N''), (''id'', JStr ''hack'')])
         (Holds [[(''id'', JStr ''a1'')], [(''id'', JStr ''b2''), (''createdAt'', JStr ''t0'')]])"
proof -
  have found: "findIndex (has_id ''b2'')
     (readNotes (Holds [[(''id'', JStr ''a1'')],
                        [(''id'', JStr ''b2''), (''createdAt'', JStr ''t0'')]])) = Some 1"
    by (simp add: readNotes_def has_id_def)
  have run: "patch_note ''t9'' ''b2'' (JObj [(''title'', JStr ''N''), (''id'', JStr ''hack'')])
       (Holds [[(''id'', JStr ''a1'')], [(''id'', JStr ''b2''), (''createdAt'', JStr ''t0'')]])
     = (Respond 200
          (success [(''id'', JStr ''b2''), (''createdAt'', JStr ''t0''), (''title'', JStr ''N''),
                    (''updatedAt'', JStr ''t9'')]),
        Holds [[(''id'', JStr ''a1'')],
               [(''id'', JStr ''b2''), (''createdAt'', JStr ''t0''), (''title'', JStr ''N''),
                (''updatedAt'', JStr ''t9'')]])"
    by (simp add: patch_note_def readNotes_def writeNotes_def has_id_def get_prop_def
        Let_def updates_of_def allowedFields_def spread_def)
  from patch_changes_only_allowed_fields
    [OF found, of "JObj [(''title'', JStr ''N''), (''id'', JStr ''hack'')]" "''t9''"]
  have "patch_note ''t9'' ''b2''
       (only_allowed (JObj [(''title'', JStr ''N''), (''id'', JStr ''hack'')]))
       (Holds [[(''id'', JStr ''a1'')], [(''id'', JStr ''b2''), (''createdAt'', JStr ''t0'')]])
     = patch_note ''t9'' ''b2'' (JObj [(''title'', JStr ''N''), (''id'', JStr ''hack'')])
         (Holds [[(''id'', JStr ''a1'')], [(''id'', JStr ''b2''), (''createdAt'', JStr ''t0'')]])"
    by blast
  with found run show ?thesis
    by blast
qed

section \<open>Properties of the routers\<close>

lemma foldl_addRoute:
  "routes3 (foldl (\<lambda>r (v, path, h). addRoute v path h r) r0 regs) v
     = routes3 r0 v @ map route_of (registered v regs) \<and>
   middlewares3 (foldl (\<lambda>r (v, path, h). addRoute v path h r) r0 regs) = middlewares3 r0"
proof (induction regs arbitrary: r0)
  case Nil
  show ?case by (simp add: registered_def)
next
  case (Cons reg regs)
  obtain v' path h where reg: "reg = (v', path, h)"
    by (cases reg) auto
  show ?case
    using Cons.IH [of "addRoute v' path h r0"]
    by (simp add: reg addRoute_def registered_def route_of_def split: prod.splits)
qed

lemma foldl_use3:
  "middlewares3 (foldl (\<lambda>r fn. use3 fn r) r0 mws) = middlewares3 r0 @ mws \<and>
   routes3 (foldl (\<lambda>r fn. use3 fn r) r0 mws) = routes3 r0"
  by (induction mws arbitrary: r0) (simp_all add: use3_def)

lemma build3_routes: "routes3 (build3 mws regs) v = map route_of (registered v regs)"
  by (simp add: build3_def foldl_addRoute foldl_use3 new_router3_def)

lemma build3_middlewares: "middlewares3 (build3 mws regs) = mws"
  by (simp add: build3_def foldl_addRoute foldl_use3 new_router3_def)

lemma foldl_setRoute2:
  "routes2 (foldl (\<lambda>r (v, path, h). setRoute2 v path h r) r0 regs) v
     = routes2 r0 v ++ map_of (rev (registered v regs)) \<and>
   middlewares2 (foldl (\<lambda>r (v, path, h). setRoute2 v path h r) r0 regs) = middlewares2 r0"
proof (induction regs arbitrary: r0)
  case Nil
  show ?case by (simp add: registered_def)
next
  case (Cons reg regs)
  obtain v' path h where reg: "reg = (v', path, h)"
    by (cases reg) auto
  show ?case
    using Cons.IH [of "setRoute2 v' path h r0"]
    by (auto simp: reg setRoute2_def registered_def map_add_def fun_eq_iff split: option.splits)
qed

lemma foldl_use2:
  "middlewares2 (foldl (\<lambda>r fn. use2 fn r) r0 mws) = middlewares2 r0 @ mws \<and>
   routes2 (foldl (\<lambda>r fn. use2 fn r) r0 mws) = routes2 r0"
  by (induction mws arbitrary: r0) (simp_all add: use2_def)

lemma build2_routes: "routes2 (build2 mws regs) v = map_of (rev (registered v regs))"
  by (simp add: build2_def foldl_setRoute2 foldl_use2 new_router2_def)

lemma build2_middlewares: "middlewares2 (build2 mws regs) = mws"
  by (simp add: build2_def foldl_setRoute2 foldl_use2 new_router2_def)

lemma find_route_first:
  "i < length rs \<Longrightarrow> rx (pattern (rs ! i)) p = Some caps \<Longrightarrow>
   (\<forall>j<i. rx (pattern (rs ! j)) p = None) \<Longrightarrow>
   find_route rx rs p = Some (rs ! i, caps)"
proof (induction rs arbitrary: i)
  case Nil
  then show ?case by simp
next
  case (Cons r rs)
  show ?case
  proof (cases i)
    case 0
    with Cons.prems show ?thesis by simp
  next
    case (Suc k)
    with Cons.prems have "rx (pattern r) p = None"
      by auto
    moreover have "find_route rx rs p = Some (rs ! k, caps)"
      using Cons.prems Suc by (intro Cons.IH) auto
    ultimately show ?thesis
      using Suc by simp
  qed
qed

lemma find_route_none:
  "(\<forall>i<length rs. rx (pattern (rs ! i)) p = None) \<Longrightarrow> find_route rx rs p = None"
proof (induction rs)
  case Nil
  then show ?case by simp
next
  case (Cons r rs)
  from Cons.prems have "rx (pattern r) p = None"
    by auto
  moreover have "find_route rx rs p = None"
    using Cons.prems by (intro Cons.IH) auto
  ultimately show ?case by simp
qed

lemma map_of_rev_last:
  "i < length xs \<Longrightarrow> fst (xs ! i) = k \<Longrightarrow> (\<forall>j. i < j \<and> j < length xs \<longrightarrow> fst (xs ! j) \<noteq> k) \<Longrightarrow>
   map_of (rev xs) k = Some (snd (xs ! i))"
proof (induction xs arbitrary: i rule: rev_induct)
  case Nil
  then show ?case by simp
next
  case (snoc x xs)
  show ?case
  proof (cases "i = length xs")
    case True
    with snoc.prems show ?thesis
      by (cases x) auto
  next
    case False
    with snoc.prems have i: "i < length xs"
      by simp
    from snoc.prems(3) [rule_format, of "length xs"] i have "fst x \<noteq> k"
      by simp
    moreover have "map_of (rev xs) k = Some (snd (xs ! i))"
    proof (rule snoc.IH [OF i])
      show "fst (xs ! i) = k"
        using snoc.prems(2) i by (simp add: nth_append)
      show "\<forall>j. i < j \<and> j < length xs \<longrightarrow> fst (xs ! j) \<noteq> k"
        using snoc.prems(3) by (auto simp: nth_append split: if_splits)
    qed
    ultimately show ?thesis
      using i by (cases x) (auto simp: nth_append)
  qed
qed

lemma map_of_rev_none:
  "(\<forall>i<length xs. fst (xs ! i) \<noteq> k) \<Longrightarrow> map_of (rev xs) k = None"
proof -
  assume a: "\<forall>i<length xs. fst (xs ! i) \<noteq> k"
  have "k \<notin> fst ` set xs"
  proof
    assume "k \<in> fst ` set xs"
    then obtain i where "i < length xs" "fst (xs ! i) = k"
      by (auto simp: in_set_conv_nth)
    with a show False by blast
  qed
  then show ?thesis
    by (simp add: map_of_eq_None_iff)
qed

lemma promise2_pending:
  "\<not> destroyed st \<Longrightarrow>
   (promise (foldl (parseBody2_step parse) st evs) = Pending)
     = (promise st = Pending \<and> End \<notin> set evs) \<and>
   \<not> destroyed (foldl (parseBody2_step parse) st evs)"
proof (induction evs arbitrary: st)
  case Nil
  then show ?case by simp
next
  case (Cons ev evs)
  have a: "\<not> destroyed (parseBody2_step parse st ev)"
    using Cons.prems by (cases ev) (simp_all add: parseBody2_step_def)
  have b: "(promise (parseBody2_step parse st ev) = Pending) = (promise st = Pending \<and> ev \<noteq> End)"
    using Cons.prems
    by (cases ev) (auto simp: parseBody2_step_def settle_def split: option.splits)
  from Cons.IH [OF a] b show ?case
    by auto
qed

lemma promise3_pending:
  "\<not> destroyed st \<Longrightarrow>
   (promise (foldl (parseBody3_step parse) st evs) = Pending)
     = (promise st = Pending \<and> End \<notin> set evs) \<and>
   \<not> destroyed (foldl (parseBody3_step parse) st evs)"
proof (induction evs arbitrary: st)
  case Nil
  then show ?case by simp
next
  case (Cons ev evs)
  have a: "\<not> destroyed (parseBody3_step parse st ev)"
    using Cons.prems by (cases ev) (simp_all add: parseBody3_step_def)
  have b: "(promise (parseBody3_step parse st ev) = Pending) = (promise st = Pending \<and> ev \<noteq> End)"
    using Cons.prems
    by (cases ev) (auto simp: parseBody3_step_def settle_def split: option.splits)
  from Cons.IH [OF a] b show ?case
    by auto
qed

lemma parseBody_resolved_iff:
  "(\<exists>b. promise (parseBody2 parse evs) = Resolved b) = (End \<in> set evs)"
  "(\<exists>b. promise (parseBody3 parse evs) = Resolved b) = (End \<in> set evs)"
proof -
  have p2: "(promise (parseBody2 parse evs) = Pending) = (End \<notin> set evs)"
    using promise2_pending [of reader_init parse evs]
    by (simp add: parseBody2_def reader_init_def)
  have r2: "\<forall>e. promise (parseBody2 parse evs) \<noteq> Rejected e"
    using parseBody2_invariant [of reader_init parse evs]
    by (simp add: parseBody2_def reader_init_def)
  from p2 r2 show "(\<exists>b. promise (parseBody2 parse evs) = Resolved b) = (End \<in> set evs)"
    by (cases "promise (parseBody2 parse evs)") auto
  have p3: "(promise (parseBody3 parse evs) = Pending) = (End \<notin> set evs)"
    using promise3_pending [of reader_init parse evs]
    by (simp add: parseBody3_def reader_init_def)
  have r3: "\<forall>e. promise (parseBody3 parse evs) \<noteq> Rejected e"
    using parseBody3_invariant [of reader_init parse evs]
    by (simp add: parseBody3_def reader_init_def)
  from p3 r3 show "(\<exists>b. promise (parseBody3 parse evs) = Resolved b) = (End \<in> set evs)"
    by (cases "promise (parseBody3 parse evs)") auto
qed

lemma replace_params_literal: "literal_path p \<Longrightarrow> replace_params p = (p, [])"
  by (induction p) (simp_all add: literal_path_def)

lemma tokens_literal: "literal_path p \<Longrightarrow> tokens p = map Chr p"
proof (induction p)
  case Nil
  then show ?case by simp
next
  case (Cons c cs)
  then have "c \<noteq> CHR ''(''"
    by (auto simp: literal_path_def is_meta_def)
  then have "take 7 (c # cs) \<noteq> ''([^/]+)''"
    by (auto simp: take_Cons' )
  with Cons show ?case
    by (simp add: literal_path_def)
qed

lemma match_tokens_literal: "match_tokens (map Chr p) s = (if s = p then Some [] else None)"
  by (induction p arbitrary: s) (auto split: list.splits)

lemma regexp_match_literal: "literal_engine regexp_match"
proof -
  have "regexp_match (''^'' @ p @ ''$'') s = (if s = p then Some [] else None)"
    if "literal_path p" for p s
  proof -
    have "butlast (tl (''^'' @ p @ ''$'')) = p"
      by (simp add: butlast_append)
    then show ?thesis
      using that by (simp add: regexp_match_def tokens_literal match_tokens_literal)
  qed
  then show ?thesis
    by (simp add: literal_engine_def)
qed

lemma map_of_rev_distinct: "distinct (map fst xs) \<Longrightarrow> map_of (rev xs) = map_of xs"
  by (rule iffD2 [OF map_of_inject_set]) (simp_all add: rev_map [symmetric])

lemma find_route_literal:
  "literal_engine rx \<Longrightarrow> list_all (\<lambda>ph. literal_path (fst ph)) cands \<Longrightarrow>
   find_route rx (map route_of cands) p
     = map_option (\<lambda>h. (route_of (p, h), [])) (map_of cands p)"
proof (induction cands)
  case Nil
  then show ?case by simp
next
  case (Cons ph cands)
  obtain q h where ph: "ph = (q, h)"
    by (cases ph) auto
  from Cons.prems have lit: "literal_path q"
    by (simp add: ph)
  with Cons.prems(1) have m: "rx (''^'' @ q @ ''$'') p = (if p = q then Some [] else None)"
    by (simp add: literal_engine_def)
  have pat: "pattern (route_of (q, h)) = ''^'' @ q @ ''$''"
    using lit by (simp add: route_of_def replace_params_literal)
  from Cons.IH Cons.prems m pat show ?case
    by (auto simp: ph)
qed

lemma registered_distinct:
  "distinct (map (\<lambda>(v, p, h). (v, p)) regs) \<Longrightarrow> distinct (map fst (registered v regs))"
proof (induction regs)
  case Nil
  then show ?case by (simp add: registered_def)
next
  case (Cons reg regs)
  obtain v' p h where reg: "reg = (v', p, h)"
    by (cases reg) auto
  from Cons.prems have d: "distinct (map (\<lambda>(v, p, h). (v, p)) regs)"
    and n: "(v', p) \<notin> (\<lambda>(v, p, h). (v, p)) ` set regs"
    by (simp_all add: reg)
  have "p \<notin> fst ` set (registered v' regs)"
  proof
    assume "p \<in> fst ` set (registered v' regs)"
    then obtain h' where "(v', p, h') \<in> set regs"
      by (force simp: registered_def)
    then have "(v', p) \<in> (\<lambda>(v, p, h). (v, p)) ` set regs"
      by force
    with n show False by simp
  qed
  with Cons.IH [OF d] show ?case
    by (auto simp: reg registered_def)
qed

lemma registered_literal:
  "\<forall>(v, p, h)\<in>set regs. v \<noteq> PATCH \<and> literal_path p \<Longrightarrow>
   list_all (\<lambda>ph. literal_path (fst ph)) (registered v regs)"
  by (auto simp: registered_def list_all_iff)

text \<open>
  When no middleware ends the response, both routers run the same middlewares to the same
  request and response.
\<close>

lemma run_middlewares_open:
  "run_middlewares3 mws rq rs = Some (rq', rs') \<Longrightarrow> \<not> writableEnded rs \<Longrightarrow>
   run_middlewares2 mws rq rs = (rq', rs') \<and> \<not> writableEnded rs'"
  by (induction mws arbitrary: rq rs) (auto split: prod.splits if_splits)

text \<open>
  Part 2 after the rate limiter has ended the response: the handler of a registered route
  is never called when the late listeners receive nothing, and is called with \<^verbatim>\<open>{}\<close> when they
  still receive \<^verbatim>\<open>'end'\<close>, whatever the body was; with no route, \<^verbatim>\<open>res.json\<close> throws.
\<close>

lemma handle2_after_ended_response:
  "handle2 JSON_parse
       (build2 [limit_reached 60] [(GET, ''/users'', ''listUsers''),
                                   (POST, ''/users'', ''createUser'')])
       \<lparr>method = ''GET'', pathname = ''/users'', params = [], req_body = None\<rparr>
       (complete []) []
     = Wait \<and>
   handle2 JSON_parse
       (build2 [limit_reached 60] [(GET, ''/users'', ''listUsers''),
                                   (POST, ''/users'', ''createUser'')])
       \<lparr>method = ''POST'', pathname = ''/users'', params = [], req_body = None\<rparr>
       (complete [''[1]'']) [End]
     = Invoke ''createUser''
         \<lparr>method = ''POST'', pathname = ''/users'', params = [],
          req_body = Some empty_object\<rparr> \<and>
   handle2 JSON_parse
       (build2 [limit_reached 60] [(GET, ''/users'', ''listUsers''),
                                   (POST, ''/users'', ''createUser'')])
       \<lparr>method = ''GET'', pathname = ''/nope'', params = [], req_body = None\<rparr>
       (complete []) []
     = Raise"
  by (simp add: handle2_def build2_middlewares build2_routes registered_def limit_reached_def
      writableEnded_def verb_of_def parseBody2_def parseBody2_step_def reader_init_def
      settle_def)

text \<open>
  Claim C8. A route table of distinct (method, path) registrations, made with the methods
  both classes have (\<^verbatim>\<open>get\<close>, \<^verbatim>\<open>post\<close>, \<^verbatim>\<open>put\<close>, \<^verbatim>\<open>delete\<close>) on literal paths, is registered in a
  Part 2 router and in a Part 3 router that have been given the same middlewares. For every
  request, arriving without \<^verbatim>\<open>params\<close>, whose response none of the middlewares ends, and for
  every body stream, both call the same handler or both call none, and one answers 404
  exactly when the other does. The regular-expression engine is any that matches \<^verbatim>\<open>^path$\<close>
  against the path alone.
\<close>

theorem routers_dispatch_alike:
  assumes "distinct (map (\<lambda>(v, p, h). (v, p)) regs)"
    and "\<forall>(v, p, h)\<in>set regs. v \<noteq> PATCH \<and> literal_path p"
    and "literal_engine rx"
    and "params rq = []"
    and "run_middlewares3 mws rq None \<noteq> None"
  shows "selected (handle2 parse (build2 mws regs) rq evs late)
           = selected (handle3 rx parse (build3 mws regs) rq evs) \<and>
         is_404 (handle2 parse (build2 mws regs) rq evs late)
           = is_404 (handle3 rx parse (build3 mws regs) rq evs)"
proof -
  from assms(4) have fresh: "rq\<lparr>params := []\<rparr> = rq"
    by simp
  from assms(5) obtain rq' rs' where run3: "run_middlewares3 mws rq None = Some (rq', rs')"
    by auto
  from run_middlewares_open [OF run3]
  have run2: "run_middlewares2 mws rq None = (rq', rs')" and opn: "\<not> writableEnded rs'"
    by (simp_all add: writableEnded_def)
  show ?thesis
  proof (cases "verb_of (method rq')")
    case None
    with fresh run3 run2 opn show ?thesis
      by (simp add: handle2_def handle3_def build2_middlewares build3_middlewares)
  next
    case (Some v)
    let ?cands = "registered v regs"
    have tbl: "routes2 (build2 mws regs) v (pathname rq') = map_of ?cands (pathname rq')"
      using registered_distinct [OF assms(1), of v]
      by (simp add: build2_routes map_of_rev_distinct)
    have scan: "find_route rx (routes3 (build3 mws regs) v) (pathname rq')
        = map_option (\<lambda>h. (route_of (pathname rq', h), [])) (map_of ?cands (pathname rq'))"
      using find_route_literal [OF assms(3) registered_literal [OF assms(2)]]
      by (simp add: build3_routes)
    show ?thesis
    proof (cases "map_of ?cands (pathname rq')")
      case None
      with Some tbl scan fresh run3 run2 opn show ?thesis
        by (simp add: handle2_def handle3_def build2_middlewares build3_middlewares)
    next
      case found: (Some h)
      show ?thesis
      proof (cases "End \<in> set evs")
        case True
        then obtain b2 b3 where "promise (parseBody2 parse evs) = Resolved b2"
          and "promise (parseBody3 parse evs) = Resolved b3"
          using parseBody_resolved_iff [of parse evs] by auto
        with Some tbl scan found fresh run3 run2 opn show ?thesis
          by (simp add: handle2_def handle3_def build2_middlewares build3_middlewares
              route_of_def)
      next
        case False
        then have "\<forall>b. promise (parseBody2 parse evs) \<noteq> Resolved b"
          and "\<forall>b. promise (parseBody3 parse evs) \<noteq> Resolved b"
          using parseBody_resolved_iff [of parse evs] by auto
        with Some tbl scan found fresh run3 run2 opn show ?thesis
          by (auto simp: handle2_def handle3_def build2_middlewares build3_middlewares
              split: promise.splits)
      qed
    qed
  qed
qed

theorem routers_dispatch_alike_witness:
  "literal_engine regexp_match \<and>
   run_middlewares3 [logger]
       \<lparr>method = ''POST'', pathname = ''/users'', params = [], req_body = None\<rparr> None \<noteq> None \<and>
   selected (handle2 JSON_parse
       (build2 [logger] [(GET, ''/'', ''home''), (GET, ''/users'', ''listUsers''),
                         (POST, ''/users'', ''createUser''), (GET, ''/search'', ''search'')])
       \<lparr>method = ''POST'', pathname = ''/users'', params = [], req_body = None\<rparr>
       (complete [''[1]'']) [])
     = selected (handle3 regexp_match JSON_parse
       (build3 [logger] [(GET, ''/'', ''home''), (GET, ''/users'', ''listUsers''),
                         (POST, ''/users'', ''createUser''), (GET, ''/search'', ''search'')])
       \<lparr>method = ''POST'', pathname = ''/users'', params = [], req_body = None\<rparr>
       (complete [''[1]''])) \<and>
   selected (handle3 regexp_match JSON_parse
       (build3 [logger] [(GET, ''/'', ''home''), (GET, ''/users'', ''listUsers''),
                         (POST, ''/users'', ''createUser''), (GET, ''/search'', ''search'')])
       \<lparr>method = ''POST'', pathname = ''/users'', params = [], req_body = None\<rparr>
       (complete [''[1]'']))
     = Some ''createUser''"
proof -
  have d: "distinct (map (\<lambda>(v, p, h). (v, p))
      [(GET, ''/'', ''home''), (GET, ''/users'', ''listUsers''),
       (POST, ''/users'', ''createUser''), (GET, ''/search'', ''search'')])"
    by simp
  have l: "\<forall>(v, p, h)\<in>set [(GET, ''/'', ''home''), (GET, ''/users'', ''listUsers''),
       (POST, ''/users'', ''createUser''), (GET, ''/search'', ''search'')].
       v \<noteq> PATCH \<and> literal_path p"
    by (simp add: literal_path_def is_meta_def)
  have fresh: "params \<lparr>method = ''POST'', pathname = ''/users'', params = [],
      req_body = None\<rparr> = []"
    by simp
  have opn: "run_middlewares3 [logger]
       \<lparr>method = ''POST'', pathname = ''/users'', params = [], req_body = None\<rparr> None \<noteq> None"
    by (simp add: logger_def writableEnded_def)
  have v: "selected (handle3 regexp_match JSON_parse
       (build3 [logger] [(GET, ''/'', ''home''), (GET, ''/users'', ''listUsers''),
                         (POST, ''/users'', ''createUser''), (GET, ''/search'', ''search'')])
       \<lparr>method = ''POST'', pathname = ''/users'', params = [], req_body = None\<rparr>
       (complete [''[1]'']))
     = Some ''createUser''"
    by code_simp
  from routers_dispatch_alike [OF d l regexp_match_literal fresh opn] v regexp_match_literal opn
  show ?thesis
    by blast
qed

text \<open>
  Claim C1, as amended. Routers with the middlewares \<open>mws\<close> and the registrations \<open>regs\<close>.
  Part 3: when a middleware has ended the response, \<^verbatim>\<open>handle\<close> returns; otherwise, with the
  request as the middlewares leave it, the handler of the first route registered for the
  method whose pattern matches the pathname is called, with the captured parameters
  written into the request's \<^verbatim>\<open>params\<close> and with the parsed body, and when no route registered
  for the method matches the answer is 404 with
  \<^verbatim>\<open>{ success: false, error: 'Route not found' }\<close>. Part 2, when no middleware has ended the
  response: the handler registered last for the method and exactly the pathname is called
  with the parsed body, and when there is none the answer is 404 with
  \<^verbatim>\<open>{ error: 'Route not found' }\<close>. Part 2, when a middleware has ended the response and no
  handler is registered for the method and pathname: no 404 is sent, \<^verbatim>\<open>res.json\<close> throws.
\<close>

theorem route_dispatch:
  "(run_middlewares3 mws (rq\<lparr>params := []\<rparr>) None = None \<longrightarrow>
      handle3 rx parse (build3 mws regs) rq evs = Return) \<and>
   (\<forall>rq' rs'. run_middlewares3 mws (rq\<lparr>params := []\<rparr>) None = Some (rq', rs') \<longrightarrow>
      (\<forall>v i caps.
          verb_of (method rq') = Some v \<and> i < length (registered v regs) \<and>
          rx (pattern (route_of (registered v regs ! i))) (pathname rq') = Some caps \<and>
          (\<forall>j<i. rx (pattern (route_of (registered v regs ! j))) (pathname rq') = None) \<longrightarrow>
          handle3 rx parse (build3 mws regs) rq (complete cs)
            = Invoke (snd (registered v regs ! i))
                (rq'\<lparr>params := set_params (params rq')
                                  (paramNames (route_of (registered v regs ! i))) caps,
                     req_body := Some (case parse (concat cs) of
                                         Some b \<Rightarrow> b
                                       | None \<Rightarrow> empty_object)\<rparr>)) \<and>
      ((\<forall>v. verb_of (method rq') = Some v \<longrightarrow>
            (\<forall>i<length (registered v regs).
                rx (pattern (route_of (registered v regs ! i))) (pathname rq') = None)) \<longrightarrow>
          handle3 rx parse (build3 mws regs) rq evs = Reply 404 route_not_found3)) \<and>
   (\<forall>rq' rs'. run_middlewares2 mws rq None = (rq', rs') \<and> \<not> writableEnded rs' \<longrightarrow>
      (\<forall>v i.
          verb_of (method rq') = Some v \<and> i < length (registered v regs) \<and>
          fst (registered v regs ! i) = pathname rq' \<and>
          (\<forall>j. i < j \<and> j < length (registered v regs) \<longrightarrow>
                fst (registered v regs ! j) \<noteq> pathname rq') \<longrightarrow>
          handle2 parse (build2 mws regs) rq (complete cs) late
            = Invoke (snd (registered v regs ! i))
                (rq'\<lparr>req_body := Some (if concat cs = [] then empty_object
                                        else case parse (concat cs) of
                                               Some b \<Rightarrow> b
                                             | None \<Rightarrow> empty_object)\<rparr>)) \<and>
      ((\<forall>v. verb_of (method rq') = Some v \<longrightarrow>
            (\<forall>i<length (registered v regs). fst (registered v regs ! i) \<noteq> pathname rq')) \<longrightarrow>
          handle2 parse (build2 mws regs) rq evs late = Reply 404 route_not_found2)) \<and>
   (\<forall>rq' rs'. run_middlewares2 mws rq None = (rq', rs') \<and> writableEnded rs' \<and>
      (\<forall>v. verb_of (method rq') = Some v \<longrightarrow>
            (\<forall>i<length (registered v regs). fst (registered v regs ! i) \<noteq> pathname rq')) \<longrightarrow>
      handle2 parse (build2 mws regs) rq evs late = Raise)"
proof -
  have stop: "handle3 rx parse (build3 mws regs) rq evs = Return"
    if "run_middlewares3 mws (rq\<lparr>params := []\<rparr>) None = None"
    using that by (simp add: handle3_def build3_middlewares)
  have first3: "handle3 rx parse (build3 mws regs) rq (complete cs)
            = Invoke (snd (registered v regs ! i))
                (rq'\<lparr>params := set_params (params rq')
                                  (paramNames (route_of (registered v regs ! i))) caps,
                     req_body := Some (case parse (concat cs) of
                                         Some b \<Rightarrow> b
                                       | None \<Rightarrow> empty_object)\<rparr>)"
    if run: "run_middlewares3 mws (rq\<lparr>params := []\<rparr>) None = Some (rq', rs')"
      and v: "verb_of (method rq') = Some v"
      and i: "i < length (registered v regs)"
      and m: "rx (pattern (route_of (registered v regs ! i))) (pathname rq') = Some caps"
      and before: "\<forall>j<i. rx (pattern (route_of (registered v regs ! j))) (pathname rq') = None"
    for rq' rs' v i caps
  proof -
    have "find_route rx (map route_of (registered v regs)) (pathname rq')
        = Some (map route_of (registered v regs) ! i, caps)"
      using i m before by (intro find_route_first) simp_all
    then have "find_route rx (routes3 (build3 mws regs) v) (pathname rq')
        = Some (route_of (registered v regs ! i), caps)"
      using i by (simp add: build3_routes)
    moreover have "promise (parseBody3 parse (complete cs))
        = Resolved (case parse (concat cs) of Some b \<Rightarrow> b | None \<Rightarrow> empty_object)"
      by (simp add: parseBody3_complete split: option.splits)
    ultimately show ?thesis
      using run v by (simp add: handle3_def build3_middlewares route_of_def)
  qed
  have none3: "handle3 rx parse (build3 mws regs) rq evs = Reply 404 route_not_found3"
    if run: "run_middlewares3 mws (rq\<lparr>params := []\<rparr>) None = Some (rq', rs')"
      and no: "\<forall>v. verb_of (method rq') = Some v \<longrightarrow>
            (\<forall>i<length (registered v regs).
                rx (pattern (route_of (registered v regs ! i))) (pathname rq') = None)"
    for rq' rs'
  proof (cases "verb_of (method rq')")
    case None
    with run show ?thesis
      by (simp add: handle3_def build3_middlewares)
  next
    case (Some v)
    with no have "find_route rx (map route_of (registered v regs)) (pathname rq') = None"
      by (intro find_route_none) simp
    with run Some show ?thesis
      by (simp add: handle3_def build3_middlewares build3_routes)
  qed
  have last2: "handle2 parse (build2 mws regs) rq (complete cs) late
            = Invoke (snd (registered v regs ! i))
                (rq'\<lparr>req_body := Some (if concat cs = [] then empty_object
                                        else case parse (concat cs) of
                                               Some b \<Rightarrow> b
                                             | None \<Rightarrow> empty_object)\<rparr>)"
    if run: "run_middlewares2 mws rq None = (rq', rs')"
      and open_res: "\<not> writableEnded rs'"
      and v: "verb_of (method rq') = Some v"
      and i: "i < length (registered v regs)"
      and m: "fst (registered v regs ! i) = pathname rq'"
      and after: "\<forall>j. i < j \<and> j < length (registered v regs) \<longrightarrow>
                fst (registered v regs ! j) \<noteq> pathname rq'"
    for rq' rs' v i
  proof -
    have "routes2 (build2 mws regs) v (pathname rq') = Some (snd (registered v regs ! i))"
      using map_of_rev_last [OF i m after] by (simp add: build2_routes)
    moreover have "promise (parseBody2 parse (complete cs))
        = Resolved (if concat cs = [] then empty_object
                    else case parse (concat cs) of Some b \<Rightarrow> b | None \<Rightarrow> empty_object)"
      by (simp add: parseBody2_complete del: concat_eq_Nil_conv split: option.splits)
    ultimately show ?thesis
      using run v open_res
      by (simp add: handle2_def build2_middlewares del: concat_eq_Nil_conv)
  qed
  have none2: "handle2 parse (build2 mws regs) rq evs late
        = (if writableEnded rs' then Raise else Reply 404 route_not_found2)"
    if run: "run_middlewares2 mws rq None = (rq', rs')"
      and no: "\<forall>v. verb_of (method rq') = Some v \<longrightarrow>
            (\<forall>i<length (registered v regs). fst (registered v regs ! i) \<noteq> pathname rq')"
    for rq' rs'
  proof (cases "verb_of (method rq')")
    case None
    with run show ?thesis
      by (simp add: handle2_def build2_middlewares)
  next
    case (Some v)
    with no have "map_of (rev (registered v regs)) (pathname rq') = None"
      by (intro map_of_rev_none) simp
    with run Some show ?thesis
      by (simp add: handle2_def build2_middlewares build2_routes)
  qed
  have open2: "handle2 parse (build2 mws regs) rq evs late = Reply 404 route_not_found2"
    if "run_middlewares2 mws rq None = (rq', rs')" "\<not> writableEnded rs'"
      "\<forall>v. verb_of (method rq') = Some v \<longrightarrow>
            (\<forall>i<length (registered v regs). fst (registered v regs ! i) \<noteq> pathname rq')"
    for rq' rs'
    using none2 [OF that(1,3)] that(2) by simp
  have ended2: "handle2 parse (build2 mws regs) rq evs late = Raise"
    if "run_middlewares2 mws rq None = (rq', rs')" "writableEnded rs'"
      "\<forall>v. verb_of (method rq') = Some v \<longrightarrow>
            (\<forall>i<length (registered v regs). fst (registered v regs ! i) \<noteq> pathname rq')"
    for rq' rs'
    using none2 [OF that(1,3)] that(2) by simp
  from stop first3 none3 last2 open2 ended2 show ?thesis
    by blast
qed

text \<open>
  Claim C1 as stated fails in the Part 3 router when a middleware has answered: with the
  rate limiter having reached its limit, a \<^verbatim>\<open>GET /users\<close> whose route is registered is not
  dispatched; \<^verbatim>\<open>handle\<close> returns after the middleware.
\<close>

theorem ended_response_skips_handler:
  "handle3 regexp_match JSON_parse
       (build3 [limit_reached 60] [(GET, ''/users'', ''listUsers'')])
       \<lparr>method = ''GET'', pathname = ''/users'', params = [], req_body = None\<rparr>
       (complete [])
     = Return"
  by (simp add: handle3_def build3_middlewares limit_reached_def writableEnded_def)

theorem route_dispatch_witness:
  "handle3 regexp_match JSON_parse
       (build3 [logger]
          [(GET, ''/notes'', ''listNotes''), (GET, ''/notes/:id'', ''getNote''),
           (GET, ''/notes/:x'', ''shadowed''), (POST, ''/notes'', ''createNote'')])
       \<lparr>method = ''GET'', pathname = ''/notes/q7'', params = [], req_body = None\<rparr>
       (complete [''[1]''])
     = Invoke ''getNote''
         \<lparr>method = ''GET'', pathname = ''/notes/q7'', params = [(''id'', ''q7'')],
          req_body = Some (JArr [JNum 1])\<rparr> \<and>
   handle2 JSON_parse
       (build2 [logger] [(GET, ''/users'', ''first''), (POST, ''/users'', ''createUser''),
                         (GET, ''/users'', ''second'')])
       \<lparr>method = ''GET'', pathname = ''/users'', params = [], req_body = None\<rparr>
       (complete [''[1]'']) []
     = Invoke ''second''
         \<lparr>method = ''GET'', pathname = ''/users'', params = [],
          req_body = Some (JArr [JNum 1])\<rparr> \<and>
   handle2 JSON_parse
       (build2 [logger] [(GET, ''/users'', ''first''), (POST, ''/users'', ''createUser''),
                         (GET, ''/users'', ''second'')])
       \<lparr>method = ''GET'', pathname = ''/nope'', params = [], req_body = None\<rparr>
       (complete []) []
     = Reply 404 route_not_found2 \<and>
   handle2 JSON_parse
       (build2 [limit_reached 60]
          [(GET, ''/users'', ''first''), (POST, ''/users'', ''createUser''),
           (GET, ''/users'', ''second'')])
       \<lparr>method = ''GET'', pathname = ''/nope'', params = [], req_body = None\<rparr>
       (complete []) []
     = Raise \<and>
   handle3 regexp_match JSON_parse
       (build3 [logger]
          [(GET, ''/notes'', ''listNotes''), (GET, ''/notes/:id'', ''getNote''),
           (GET, ''/notes/:x'', ''shadowed''), (POST, ''/notes'', ''createNote'')])
       \<lparr>method = ''GET'', pathname = ''/notes/q7'', params = [], req_body = None\<rparr>
       (complete [''[1]''])
     \<noteq> Return"
proof -
  let ?regs = "[(GET, ''/notes'', ''listNotes''), (GET, ''/notes/:id'', ''getNote''),
                (GET, ''/notes/:x'', ''shadowed''), (POST, ''/notes'', ''createNote'')]"
  let ?rq = "\<lparr>method = ''GET'', pathname = ''/notes/q7'', params = [], req_body = None\<rparr>"
  let ?regs2 = "[(GET, ''/users'', ''first''), (POST, ''/users'', ''createUser''),
                 (GET, ''/users'', ''second'')]"
  let ?rq2 = "\<lparr>method = ''GET'', pathname = ''/users'', params = [], req_body = None\<rparr>"
  let ?rq4 = "\<lparr>method = ''GET'', pathname = ''/nope'', params = [], req_body = None\<rparr>"
  let ?sent = "Some (429, JObj [(''error'', JStr ''Too many requests''),
                                (''retryAfter'', JNum 60)])"
  have run3: "run_middlewares3 [logger] (?rq\<lparr>params := []\<rparr>) None = Some (?rq, None)"
    by (simp add: logger_def writableEnded_def)
  have verb: "verb_of (method ?rq) = Some GET"
    by (simp add: verb_of_def)
  have len: "1 < length (registered GET ?regs)"
    by (simp add: registered_def)
  have hit: "regexp_match (pattern (route_of (registered GET ?regs ! 1))) (pathname ?rq)
      = Some [''q7'']"
    by code_simp
  have miss0: "regexp_match (pattern (route_of (registered GET ?regs ! 0))) (pathname ?rq) = None"
    by code_simp
  have miss: "\<forall>j<1. regexp_match (pattern (route_of (registered GET ?regs ! j))) (pathname ?rq)
      = None"
    using miss0 by simp
  have body: "JSON_parse (concat [''[1]'']) = Some (JArr [JNum 1])"
    by code_simp
  have names: "set_params (params ?rq) (paramNames (route_of (registered GET ?regs ! 1)))
        [''q7'']
      = [(''id'', ''q7'')]"
    by code_simp
  have h: "snd (registered GET ?regs ! 1) = ''getNote''"
    by (simp add: registered_def)
  have three: "handle3 regexp_match JSON_parse (build3 [logger] ?regs) ?rq (complete [''[1]''])
      = Invoke (snd (registered GET ?regs ! 1))
          (?rq\<lparr>params := set_params (params ?rq)
                             (paramNames (route_of (registered GET ?regs ! 1))) [''q7''],
               req_body := Some (case JSON_parse (concat [''[1]'']) of
                                   Some b \<Rightarrow> b
                                 | None \<Rightarrow> empty_object)\<rparr>)"
    using route_dispatch [where mws = "[logger]" and rq = ?rq and rx = regexp_match
        and parse = JSON_parse and regs = ?regs and cs = "[''[1]'']" and evs = "[]"
        and late = "[]"]
      run3 verb len hit miss
    by blast
  have run2: "run_middlewares2 [logger] ?rq2 None = (?rq2, None)"
    by (simp add: logger_def)
  have opn: "\<not> writableEnded None"
    by (simp add: writableEnded_def)
  have verb2: "verb_of (method ?rq2) = Some GET"
    by (simp add: verb_of_def)
  have len2: "1 < length (registered GET ?regs2)"
    by (simp add: registered_def)
  have same: "fst (registered GET ?regs2 ! 1) = pathname ?rq2"
    by (simp add: registered_def)
  have after: "\<forall>j. 1 < j \<and> j < length (registered GET ?regs2) \<longrightarrow>
      fst (registered GET ?regs2 ! j) \<noteq> pathname ?rq2"
    by (simp add: registered_def)
  have h2: "snd (registered GET ?regs2 ! 1) = ''second''"
    by (simp add: registered_def)
  have two: "handle2 JSON_parse (build2 [logger] ?regs2) ?rq2 (complete [''[1]'']) []
      = Invoke (snd (registered GET ?regs2 ! 1))
          (?rq2\<lparr>req_body := Some (if concat [''[1]''] = [] then empty_object
                                   else case JSON_parse (concat [''[1]'']) of
                                          Some b \<Rightarrow> b
                                        | None \<Rightarrow> empty_object)\<rparr>)"
    using route_dispatch [where mws = "[logger]" and rq = ?rq2 and rx = regexp_match
        and parse = JSON_parse and regs = ?regs2 and cs = "[''[1]'']" and evs = "[]"
        and late = "[]"]
      run2 opn verb2 len2 same after
    by blast
  have run4: "run_middlewares2 [logger] ?rq4 None = (?rq4, None)"
    by (simp add: logger_def)
  have run5: "run_middlewares2 [limit_reached 60] ?rq4 None = (?rq4, ?sent)"
    by (simp add: limit_reached_def)
  have ended: "writableEnded ?sent"
    by (simp add: writableEnded_def)
  have absent: "\<forall>v. verb_of (method ?rq4) = Some v \<longrightarrow>
      (\<forall>i<length (registered v ?regs2). fst (registered v ?regs2 ! i) \<noteq> pathname ?rq4)"
    by (simp add: verb_of_def registered_def nth_Cons split: nat.splits)
  have four: "handle2 JSON_parse (build2 [logger] ?regs2) ?rq4 (complete []) []
      = Reply 404 route_not_found2"
    using route_dispatch [where mws = "[logger]" and rq = ?rq4 and rx = regexp_match
        and parse = JSON_parse and regs = ?regs2 and cs = "[]" and evs = "complete []"
        and late = "[]"]
      run4 opn absent
    by blast
  have five: "handle2 JSON_parse (build2 [limit_reached 60] ?regs2) ?rq4 (complete []) []
      = Raise"
    using route_dispatch [where mws = "[limit_reached 60]" and rq = ?rq4 and rx = regexp_match
        and parse = JSON_parse and regs = ?regs2 and cs = "[]" and evs = "complete []"
        and late = "[]"]
      run5 ended absent
    by blast
  have ne: "(concat [''[1]''] = ([] :: string)) = False"
    by simp
  have three': "handle3 regexp_match JSON_parse (build3 [logger] ?regs) ?rq (complete [''[1]''])
      = Invoke ''getNote'' (?rq\<lparr>params := [(''id'', ''q7'')], req_body := Some (JArr [JNum 1])\<rparr>)"
    by (simp only: three body names h option.case)
  have two': "handle2 JSON_parse (build2 [logger] ?regs2) ?rq2 (complete [''[1]'']) []
      = Invoke ''second'' (?rq2\<lparr>req_body := Some (JArr [JNum 1])\<rparr>)"
    by (simp only: two body h2 ne if_False option.case)
  from three' two' four five show ?thesis
    by simp
qed

section \<open>Properties of the static file server\<close>

lemma split_on_nonempty: "split_on c s \<noteq> []"
  by (induction s) (auto split: list.splits)

lemma split_on_no_sep: "seg \<in> set (split_on c s) \<Longrightarrow> c \<notin> set seg"
proof (induction s arbitrary: seg)
  case Nil
  then show ?case by simp
next
  case (Cons x xs)
  then show ?case
    by (cases "split_on c xs") (auto simp: split_on_nonempty split: if_splits)
qed

lemma split_on_append_word:
  "c \<notin> set x \<Longrightarrow> split_on c (x @ r) = (x @ hd (split_on c r)) # tl (split_on c r)"
proof (induction x)
  case Nil
  then show ?case using split_on_nonempty [of c r] by (cases "split_on c r") simp_all
next
  case (Cons a x)
  then show ?case by auto
qed

lemma split_on_append_sep:
  "split_on c (a @ c # b) = split_on c a @ split_on c b"
proof (induction a)
  case Nil
  show ?case by simp
next
  case (Cons x a)
  then show ?case
    using split_on_nonempty [of c a]
    by (cases "split_on c a") (auto split: list.splits)
qed

lemma split_on_word: "c \<notin> set x \<Longrightarrow> split_on c x = [x]"
  using split_on_append_word [of c x "[]"] by simp

lemma split_on_join:
  "segs \<noteq> [] \<Longrightarrow> \<forall>seg\<in>set segs. c \<notin> set seg \<Longrightarrow> split_on c (join_with [c] segs) = segs"
proof (induction "[c]" segs rule: join_with.induct)
  case 1
  then show ?case by simp
next
  case (2 s)
  then show ?case by (simp add: split_on_word)
next
  case (3 s t ss)
  then show ?case
    by (simp add: split_on_append_sep split_on_word)
qed

lemma join_split_on: "join_with [c] (split_on c s) = s"
proof (induction s)
  case Nil
  show ?case by simp
next
  case (Cons x xs)
  obtain h t where ht: "split_on c xs = h # t"
    using split_on_nonempty [of c xs] by (cases "split_on c xs") auto
  show ?case
  proof (cases "x = c")
    case True
    with Cons ht show ?thesis by simp
  next
    case False
    with Cons ht show ?thesis by (cases t) auto
  qed
qed

lemma join_with_eq_Nil: "\<forall>seg\<in>set segs. seg \<noteq> [] \<Longrightarrow> (join_with sep segs = []) = (segs = [])"
  by (induction sep segs rule: join_with.induct) auto

lemma normalizeString_no_dotdot:
  "''..'' \<notin> set ss \<Longrightarrow>
   normalizeString a res ss = res @ filter (\<lambda>s. s \<noteq> [] \<and> s \<noteq> ''.'') ss"
  by (induction ss arbitrary: res) auto

lemma normalizeString_subset:
  "x \<in> set (normalizeString a res ss) \<Longrightarrow> x \<in> set res \<or> x \<in> set ss \<or> x = ''..''"
proof (induction ss arbitrary: res)
  case Nil
  then show ?case by simp
next
  case (Cons s ss)
  from Cons.prems consider
      "x \<in> set (normalizeString a res ss)"
    | "x \<in> set (normalizeString a (butlast res) ss)"
    | "x \<in> set (normalizeString a (res @ [''..'']) ss)"
    | "x \<in> set (normalizeString a (res @ [s]) ss)"
    by (auto split: if_splits)
  then show ?case
  proof cases
    case 1
    from Cons.IH [OF this] show ?thesis by auto
  next
    case 2
    from Cons.IH [OF this] show ?thesis by (auto dest: in_set_butlastD)
  next
    case 3
    from Cons.IH [OF this] show ?thesis by auto
  next
    case 4
    from Cons.IH [OF this] show ?thesis by auto
  qed
qed

lemma shape_step_pop:
  assumes "shape a res" "res \<noteq> []" "last res \<noteq> ''..''"
  shows "shape a (butlast res)"
proof -
  from assms(1) obtain k cs where r: "res = replicate k ''..'' @ cs" "list_all clean cs" "\<not> a \<longrightarrow> k = 0"
    by (auto simp: shape_def)
  have "cs \<noteq> []"
  proof
    assume "cs = []"
    with r(1) assms(2,3) have "res = replicate k ''..''" "k \<noteq> 0"
      by auto
    with assms(3) show False
      by (simp add: last_replicate)
  qed
  then have "butlast res = replicate k ''..'' @ butlast cs"
    using r by (simp add: butlast_append)
  moreover have "list_all clean (butlast cs)"
    using r(2) by (auto simp: list_all_iff dest: in_set_butlastD)
  ultimately show ?thesis
    using r(3) unfolding shape_def by blast
qed

lemma shape_step_push_dotdot:
  assumes "shape a res" "\<not> (res \<noteq> [] \<and> last res \<noteq> ''..'')" "a"
  shows "shape a (res @ [''..''])"
proof -
  from assms(1) obtain k cs where r: "res = replicate k ''..'' @ cs" "list_all clean cs"
    by (auto simp: shape_def)
  have "cs = []"
  proof (rule ccontr)
    assume "cs \<noteq> []"
    then have "res \<noteq> []" "last res = last cs" "last cs \<in> set cs"
      using r by auto
    with r(2) assms(2) show False
      by (auto simp: list_all_iff clean_def)
  qed
  then have "res @ [''..''] = replicate (Suc k) ''..'' @ []"
    using r by (simp add: replicate_append_same)
  then show ?thesis
    unfolding shape_def by (intro exI [of _ "Suc k"] exI [of _ "[]"]) (simp add: assms(3))
qed

lemma shape_step_push:
  assumes "shape a res" "clean s"
  shows "shape a (res @ [s])"
proof -
  from assms(1) obtain k cs where r: "res = replicate k ''..'' @ cs" "list_all clean cs" "\<not> a \<longrightarrow> k = 0"
    by (auto simp: shape_def)
  then have "res @ [s] = replicate k ''..'' @ (cs @ [s])" "list_all clean (cs @ [s])"
    using assms(2) by simp_all
  with r(3) show ?thesis
    unfolding shape_def by blast
qed

lemma normalizeString_shape: "shape a res \<Longrightarrow> shape a (normalizeString a res ss)"
proof (induction ss arbitrary: res)
  case Nil
  then show ?case by simp
next
  case (Cons s ss)
  show ?case
  proof (cases "s = [] \<or> s = ''.''")
    case True
    with Cons show ?thesis by auto
  next
    case False
    show ?thesis
    proof (cases "s = ''..''")
      case True
      show ?thesis
      proof (cases "res \<noteq> [] \<and> last res \<noteq> ''..''")
        case pop: True
        with Cons.prems have "shape a (butlast res)"
          by (intro shape_step_pop) auto
        from Cons.IH [OF this] True pop show ?thesis by simp
      next
        case nopop: False
        show ?thesis
        proof (cases a)
          case True
          with Cons.prems nopop have "shape a (res @ [''..''])"
            by (intro shape_step_push_dotdot)
          from Cons.IH [OF this] \<open>s = ''..''\<close> nopop True show ?thesis by auto
        next
          case False
          with Cons.IH [OF Cons.prems] \<open>s = ''..''\<close> nopop show ?thesis by auto
        qed
      qed
    next
      case ndd: False
      with False have "clean s" by (simp add: clean_def)
      with Cons.prems have "shape a (res @ [s])"
        by (intro shape_step_push)
      from Cons.IH [OF this] False ndd show ?thesis by simp
    qed
  qed
qed

lemma dotdots_first_none: "''..'' \<notin> set segs \<Longrightarrow> dotdots_first segs"
  unfolding dotdots_first_def by (intro exI [of _ 0] exI [of _ segs]) simp

lemma dotdots_first_tail: "dotdots_first (''..'' # segs) \<Longrightarrow> dotdots_first segs"
proof -
  assume "dotdots_first (''..'' # segs)"
  then obtain k rest where kr: "''..'' # segs = replicate k ''..'' @ rest" "''..'' \<notin> set rest"
    by (auto simp: dotdots_first_def)
  show ?thesis
  proof (cases k)
    case 0
    with kr show ?thesis by auto
  next
    case (Suc n)
    with kr have "segs = replicate n ''..'' @ rest" by simp
    with kr(2) show ?thesis unfolding dotdots_first_def by blast
  qed
qed

lemma dotdots_first_other_head:
  "dotdots_first (h # t) \<Longrightarrow> h \<noteq> ''..'' \<Longrightarrow> ''..'' \<notin> set t"
proof -
  assume a: "dotdots_first (h # t)" and h: "h \<noteq> ''..''"
  then obtain k rest where kr: "h # t = replicate k ''..'' @ rest" "''..'' \<notin> set rest"
    by (auto simp: dotdots_first_def)
  with h have "k = 0" by (cases k) auto
  with kr show ?thesis by auto
qed

lemma dotdots_first_cons: "''..'' \<notin> set t \<Longrightarrow> dotdots_first (h # t)"
proof (cases "h = ''..''")
  case True
  assume "''..'' \<notin> set t"
  then show ?thesis
    unfolding dotdots_first_def using True
    by (intro exI [of _ 1] exI [of _ t]) simp
next
  case False
  assume "''..'' \<notin> set t"
  with False show ?thesis by (intro dotdots_first_none) simp
qed

lemma normalize_segments: "dotdots_first (split_on CHR ''/'' (normalize u))"
proof (cases "u = []")
  case True
  then show ?thesis
    by (simp add: normalize_def dotdots_first_none)
next
  case False
  define a where "a = (hd u \<noteq> CHR ''/'')"
  define R where "R = normalizeString a [] (split_on CHR ''/'' u)"
  define post where "post = (if last u = CHR ''/'' then ''/'' else [])"
  have "shape a []"
    by (simp add: shape_def)
  then have "shape a R"
    unfolding R_def by (rule normalizeString_shape)
  then obtain k cs where R: "R = replicate k ''..'' @ cs" "list_all clean cs" "\<not> a \<longrightarrow> k = 0"
    by (auto simp: shape_def)
  have noslash: "\<forall>seg\<in>set R. CHR ''/'' \<notin> set seg"
  proof
    fix seg assume "seg \<in> set R"
    then have "seg \<in> set (split_on CHR ''/'' u) \<or> seg = ''..''"
      unfolding R_def
      using normalizeString_subset [of seg a "[]" "split_on CHR ''/'' u"] by simp
    then show "CHR ''/'' \<notin> set seg"
    proof
      assume "seg \<in> set (split_on CHR ''/'' u)"
      then show ?thesis by (rule split_on_no_sep)
    next
      assume "seg = ''..''"
      then show ?thesis by simp
    qed
  qed
  have nonempty: "\<forall>seg\<in>set R. seg \<noteq> []"
  proof
    fix seg assume "seg \<in> set R"
    with R(1) have "seg = ''..'' \<or> seg \<in> set cs"
      by (auto split: if_splits)
    with R(2) show "seg \<noteq> []"
      by (auto simp: list_all_iff clean_def)
  qed
  show ?thesis
  proof (cases "R = []")
    case True
    then have "normalize u = ''/'' \<or> normalize u = ''./'' \<or> normalize u = ''.''"
      using False by (auto simp: normalize_def Let_def R_def a_def)
    then show ?thesis
      by (auto intro: dotdots_first_none)
  next
    case ne: False
    then have j: "join_with ''/'' R \<noteq> []"
      using nonempty by (simp add: join_with_eq_Nil)
    have sj: "split_on CHR ''/'' (join_with ''/'' R) = R"
      using ne noslash by (rule split_on_join)
    have tail: "split_on CHR ''/'' (join_with ''/'' R @ post)
        = R @ (if last u = CHR ''/'' then [[]] else [])"
      using sj split_on_append_sep [of "CHR ''/''" "join_with ''/'' R" "[]"]
      by (simp add: post_def)
    show ?thesis
    proof (cases a)
      case True
      then have "normalize u = join_with ''/'' R @ post"
        using False j by (simp add: normalize_def Let_def R_def a_def post_def)
      then have "split_on CHR ''/'' (normalize u)
          = replicate k ''..'' @ (cs @ (if last u = CHR ''/'' then [[]] else []))"
        using tail R by simp
      moreover have "''..'' \<notin> set (cs @ (if last u = CHR ''/'' then [[]] else []))"
        using R(2) by (auto simp: list_all_iff clean_def)
      ultimately show ?thesis
        unfolding dotdots_first_def by blast
    next
      case abs: False
      then have "normalize u = ''/'' @ join_with ''/'' R @ post"
        using False j by (simp add: normalize_def Let_def R_def a_def post_def)
      then have "split_on CHR ''/'' (normalize u)
          = [[]] @ R @ (if last u = CHR ''/'' then [[]] else [])"
        using tail split_on_append_sep [of "CHR ''/''" "[]" "join_with ''/'' R @ post"]
        by simp
      moreover have "''..'' \<notin> set R"
        using R abs by (auto simp: list_all_iff clean_def)
      ultimately show ?thesis
        by (auto intro: dotdots_first_none)
    qed
  qed
qed

lemma head_dotdot:
  assumes "hd (split_on CHR ''/'' s) = ''..''"
  shows "s = ''..'' \<or> take 3 s = ''../''"
proof -
  obtain h t where ht: "split_on CHR ''/'' s = h # t"
    using split_on_nonempty [of "CHR ''/''" s] by (cases "split_on CHR ''/'' s") auto
  with assms have h: "h = ''..''" by simp
  have s: "s = join_with ''/'' (h # t)"
    using join_split_on [of "CHR ''/''" s] ht by simp
  show ?thesis
  proof (cases t)
    case Nil
    with s h show ?thesis by simp
  next
    case (Cons t1 ts)
    with s h show ?thesis by simp
  qed
qed

lemma take_split: "take n s = p \<Longrightarrow> s = p @ drop n s"
  by (metis append_take_drop_id)

lemma strip_dotdots_slash: "take 3 s = ''../'' \<Longrightarrow> strip_dotdots s = strip_dotdots (drop 3 s)"
  by (subst strip_dotdots.simps) (simp only: if_True simp_thms)

lemma strip_dotdots_backslash:
  "take 3 s = [CHR ''.'', CHR ''.'', CHR 0x5C] \<Longrightarrow> strip_dotdots s = strip_dotdots (drop 3 s)"
  by (subst strip_dotdots.simps) (simp only: if_True simp_thms)

lemma strip_dotdots_end: "strip_dotdots ''..'' = []"
  by (subst strip_dotdots.simps) simp

lemma strip_dotdots_same:
  "take 3 s \<noteq> ''../'' \<Longrightarrow> take 3 s \<noteq> [CHR ''.'', CHR ''.'', CHR 0x5C] \<Longrightarrow> s \<noteq> ''..'' \<Longrightarrow>
   strip_dotdots s = s"
  by (subst strip_dotdots.simps) (simp only: if_False simp_thms)

lemma strip_dotdots_segments:
  "dotdots_first (split_on CHR ''/'' s) \<Longrightarrow> ''..'' \<notin> set (split_on CHR ''/'' (strip_dotdots s))"
proof (induction s rule: strip_dotdots.induct)
  case (1 s)
  show ?case
  proof (cases "take 3 s = ''../''")
    case True
    have "split_on CHR ''/'' s = split_on CHR ''/'' (''..'' @ CHR ''/'' # drop 3 s)"
      using take_split [OF True] by (intro arg_cong [where f = "split_on CHR ''/''"]) simp
    also have "\<dots> = split_on CHR ''/'' ''..'' @ split_on CHR ''/'' (drop 3 s)"
      by (rule split_on_append_sep)
    also have "split_on CHR ''/'' ''..'' = [''..'']"
      by (rule split_on_word) simp
    finally have "split_on CHR ''/'' s = ''..'' # split_on CHR ''/'' (drop 3 s)"
      by simp
    with "1.prems" have "dotdots_first (split_on CHR ''/'' (drop 3 s))"
      by (simp add: dotdots_first_tail)
    with "1.IH" True have "''..'' \<notin> set (split_on CHR ''/'' (strip_dotdots (drop 3 s)))"
      by blast
    then show ?thesis
      by (simp add: strip_dotdots_slash [OF True])
  next
    case nslash: False
    show ?thesis
    proof (cases "take 3 s = [CHR ''.'', CHR ''.'', CHR 0x5C]")
      case True
      obtain h t where ht: "split_on CHR ''/'' (drop 3 s) = h # t"
        using split_on_nonempty [of "CHR ''/''" "drop 3 s"]
        by (cases "split_on CHR ''/'' (drop 3 s)") auto
      have "split_on CHR ''/'' s
          = split_on CHR ''/'' ([CHR ''.'', CHR ''.'', CHR 0x5C] @ drop 3 s)"
        using take_split [OF True] by (intro arg_cong [where f = "split_on CHR ''/''"])
      also have "\<dots> = ([CHR ''.'', CHR ''.'', CHR 0x5C] @ hd (split_on CHR ''/'' (drop 3 s)))
          # tl (split_on CHR ''/'' (drop 3 s))"
        by (rule split_on_append_word) simp
      finally have sp: "split_on CHR ''/'' s = ([CHR ''.'', CHR ''.'', CHR 0x5C] @ h) # t"
        by (simp add: ht)
      have "[CHR ''.'', CHR ''.'', CHR 0x5C] @ h \<noteq> ''..''"
        by simp
      with "1.prems" sp have "''..'' \<notin> set t"
        using dotdots_first_other_head [of "[CHR ''.'', CHR ''.'', CHR 0x5C] @ h" t] by simp
      then have "dotdots_first (split_on CHR ''/'' (drop 3 s))"
        by (simp add: ht dotdots_first_cons)
      with "1.IH" True have "''..'' \<notin> set (split_on CHR ''/'' (strip_dotdots (drop 3 s)))"
        by blast
      then show ?thesis
        by (simp add: strip_dotdots_backslash [OF True])
    next
      case nback: False
      show ?thesis
      proof (cases "s = ''..''")
        case True
        then show ?thesis
          by (simp add: strip_dotdots_end)
      next
        case False
        obtain h t where ht: "split_on CHR ''/'' s = h # t"
          using split_on_nonempty [of "CHR ''/''" s] by (cases "split_on CHR ''/'' s") auto
        have "h \<noteq> ''..''"
        proof
          assume "h = ''..''"
          then have "hd (split_on CHR ''/'' s) = ''..''"
            by (simp add: ht)
          from head_dotdot [OF this] False nslash show False
            by blast
        qed
        with "1.prems" ht have "''..'' \<notin> set t"
          using dotdots_first_other_head [of h t] by simp
        with \<open>h \<noteq> ''..''\<close> ht have "''..'' \<notin> set (split_on CHR ''/'' s)"
          by auto
        then show ?thesis
          by (simp add: strip_dotdots_same [OF nslash nback False])
      qed
    qed
  qed
qed

lemma safePath_segments:
  "''..'' \<notin> set (split_on CHR ''/'' (strip_dotdots (normalize u)))"
  by (rule strip_dotdots_segments) (rule normalize_segments)

lemma valid_rootD:
  "valid_root root \<Longrightarrow>
   \<exists>rsegs. split_on CHR ''/'' root = [] # rsegs \<and> rsegs \<noteq> [] \<and> list_all clean rsegs"
  by (auto simp: valid_root_def split: list.splits)

lemma join_with_cons: "ss \<noteq> [] \<Longrightarrow> join_with sep (s # ss) = s @ sep @ join_with sep ss"
  by (cases ss) simp_all

lemma filter_clean: "list_all clean segs \<Longrightarrow> filter (\<lambda>s. s \<noteq> [] \<and> s \<noteq> ''.'') segs = segs"
  by (induction segs) (auto simp: clean_def)

lemma normalize_under:
  assumes root: "valid_root root"
    and q: "split_on CHR ''/'' q = split_on CHR ''/'' root @ Y"
    and Y: "''..'' \<notin> set Y"
  shows "split_on CHR ''/'' (normalize q)
           = split_on CHR ''/'' root @ filter (\<lambda>s. s \<noteq> [] \<and> s \<noteq> ''.'') Y
               @ (if last q = CHR ''/'' then [[]] else [])"
    and "normalize q \<noteq> []"
proof -
  from valid_rootD [OF root] obtain rsegs
    where rs: "split_on CHR ''/'' root = [] # rsegs" "rsegs \<noteq> []" "list_all clean rsegs"
    by blast
  let ?keep = "\<lambda>s :: string. s \<noteq> [] \<and> s \<noteq> ''.''"
  define R where "R = rsegs @ filter ?keep Y"
  define post where "post = (if last q = CHR ''/'' then ''/'' else [])"
  have sq: "split_on CHR ''/'' q = [] # rsegs @ Y"
    using q rs by simp
  have qne: "q \<noteq> []"
  proof
    assume "q = []"
    with sq rs(2) show False by simp
  qed
  have "q = join_with ''/'' ([] # rsegs @ Y)"
    using join_split_on [of "CHR ''/''" q] sq by simp
  also have "\<dots> = [] @ ''/'' @ join_with ''/'' (rsegs @ Y)"
    using rs(2) by (intro join_with_cons) simp
  finally have abs: "hd q = CHR ''/''"
    by simp
  have nodd: "''..'' \<notin> set (split_on CHR ''/'' q)"
    using sq rs(3) Y by (auto simp: list_all_iff clean_def)
  have "normalizeString False [] (split_on CHR ''/'' q) = filter ?keep (split_on CHR ''/'' q)"
    using normalizeString_no_dotdot [OF nodd, of False "[]"] by simp
  also have "\<dots> = R"
    using sq filter_clean [OF rs(3)] by (simp add: R_def)
  finally have ns: "normalizeString False [] (split_on CHR ''/'' q) = R" .
  have Rne: "R \<noteq> []"
    using rs(2) by (simp add: R_def)
  have nonempty: "\<forall>seg\<in>set R. seg \<noteq> []"
    using rs(3) by (auto simp: R_def list_all_iff clean_def)
  have noslash: "\<forall>seg\<in>set R. CHR ''/'' \<notin> set seg"
  proof
    fix seg assume "seg \<in> set R"
    then have "seg \<in> set (split_on CHR ''/'' q)"
      using sq by (auto simp: R_def)
    then show "CHR ''/'' \<notin> set seg"
      by (rule split_on_no_sep)
  qed
  have j: "join_with ''/'' R \<noteq> []"
    using Rne nonempty by (simp add: join_with_eq_Nil)
  have n: "normalize q = ''/'' @ join_with ''/'' R @ post"
    using qne abs j by (simp add: normalize_def ns post_def)
  then show "normalize q \<noteq> []"
    by simp
  have sj: "split_on CHR ''/'' (join_with ''/'' R) = R"
    using Rne noslash by (rule split_on_join)
  have tail: "split_on CHR ''/'' (join_with ''/'' R @ post)
      = R @ (if last q = CHR ''/'' then [[]] else [])"
    using sj split_on_append_sep [of "CHR ''/''" "join_with ''/'' R" "[]"]
    by (simp add: post_def)
  have "split_on CHR ''/'' (normalize q)
      = [[]] @ R @ (if last q = CHR ''/'' then [[]] else [])"
    using tail split_on_append_sep [of "CHR ''/''" "[]" "join_with ''/'' R @ post"]
    by (simp add: n)
  then show "split_on CHR ''/'' (normalize q)
           = split_on CHR ''/'' root @ filter ?keep Y @ (if last q = CHR ''/'' then [[]] else [])"
    by (simp add: rs(1) R_def)
qed

lemma lies_underI:
  "split_on CHR ''/'' p = split_on CHR ''/'' root @ rest \<Longrightarrow> ''..'' \<notin> set rest \<Longrightarrow>
   lies_under root p"
  by (simp add: lies_under_def)

lemma valid_root_nonempty: "valid_root root \<Longrightarrow> root \<noteq> []"
  by (auto simp: valid_root_def)

lemma path_join_two:
  "a \<noteq> [] \<Longrightarrow> path_join [a, b] = normalize (if b = [] then a else a @ ''/'' @ b)"
  by (simp add: path_join_def)

text \<open>The file path the server computes, and the index path in it.\<close>

lemma filePath_under:
  assumes root: "valid_root root"
  shows "\<exists>rest. split_on CHR ''/'' (path_join [root, strip_dotdots (normalize u)])
                  = split_on CHR ''/'' root @ rest \<and> ''..'' \<notin> set rest"
    and "path_join [root, strip_dotdots (normalize u)] \<noteq> []"
proof -
  let ?sp = "strip_dotdots (normalize u)"
  let ?joined = "if ?sp = [] then root else root @ ''/'' @ ?sp"
  let ?Y = "if ?sp = [] then [] else split_on CHR ''/'' ?sp"
  have fp: "path_join [root, ?sp] = normalize ?joined"
    using valid_root_nonempty [OF root] by (rule path_join_two)
  have sj: "split_on CHR ''/'' ?joined = split_on CHR ''/'' root @ ?Y"
    using split_on_append_sep [of "CHR ''/''" root ?sp] by simp
  have Y: "''..'' \<notin> set ?Y"
    using safePath_segments [of u] by simp
  let ?rest = "filter (\<lambda>s. s \<noteq> [] \<and> s \<noteq> ''.'') ?Y
      @ (if last ?joined = CHR ''/'' then [[]] else [])"
  have one: "split_on CHR ''/'' (path_join [root, ?sp]) = split_on CHR ''/'' root @ ?rest"
    using normalize_under(1) [OF root sj Y] by (simp only: fp)
  have two: "''..'' \<notin> set ?rest"
    using Y by auto
  from one two
  show "\<exists>rest. split_on CHR ''/'' (path_join [root, ?sp])
                  = split_on CHR ''/'' root @ rest \<and> ''..'' \<notin> set rest"
    by blast
  show "path_join [root, ?sp] \<noteq> []"
    using normalize_under(2) [OF root sj Y] by (simp add: fp)
qed

lemma indexPath_under:
  assumes root: "valid_root root"
    and fp: "split_on CHR ''/'' filePath = split_on CHR ''/'' root @ rest" "''..'' \<notin> set rest"
      "filePath \<noteq> []"
  shows "lies_under root (path_join [filePath, ''index.html''])"
proof -
  have pj: "path_join [filePath, ''index.html''] = normalize (filePath @ ''/'' @ ''index.html'')"
    using path_join_two [OF fp(3), of "''index.html''"] by simp
  have "split_on CHR ''/'' (filePath @ ''/'' @ ''index.html'')
      = split_on CHR ''/'' filePath @ split_on CHR ''/'' ''index.html''"
    using split_on_append_sep [of "CHR ''/''" filePath "''index.html''"] by simp
  also have "split_on CHR ''/'' ''index.html'' = [''index.html'']"
    by (rule split_on_word) simp
  finally have sq: "split_on CHR ''/'' (filePath @ ''/'' @ ''index.html'')
      = split_on CHR ''/'' root @ (rest @ [''index.html''])"
    using fp(1) by simp
  have Y: "''..'' \<notin> set (rest @ [''index.html''])"
    using fp(2) by simp
  from normalize_under(1) [OF root sq Y]
  show ?thesis
    unfolding pj by (rule lies_underI) (use Y in auto)
qed

lemma serveFile_FileContent:
  "serveFile etag fs path req = FileContent p content e \<Longrightarrow>
   p = path \<and> fs path = Some (File content) \<and> e = etag content"
  by (auto simp: serveFile_def Let_def split: option.splits node.splits if_splits)

lemma serveFile_not_listing: "serveFile etag fs path req \<noteq> DirectoryListing d u"
  by (auto simp: serveFile_def Let_def split: option.splits node.splits)

text \<open>
  Claim C2. When the joined path does not start with \<open>PUBLIC_DIR\<close> a \<^verbatim>\<open>GET\<close> is answered 403
  \<^verbatim>\<open>Forbidden\<close> whatever the file system holds: it is not consulted. With \<open>PUBLIC_DIR\<close> an
  absolute normalized path, every answer that carries the content of a file names a path
  that lies under \<open>PUBLIC_DIR\<close> and holds that content, and every directory listed lies
  under \<open>PUBLIC_DIR\<close>. This holds for any \<^verbatim>\<open>decodeURIComponent\<close> and any digest.
\<close>

theorem served_files_lie_under_PUBLIC_DIR:
  "(http_method req = ''GET'' \<and>
    decode (takeWhile (\<lambda>c. c \<noteq> CHR ''?'') (url req)) = Some urlPath \<and>
    \<not> prefix PUBLIC_DIR (path_join [PUBLIC_DIR, strip_dotdots (normalize urlPath)]) \<longrightarrow>
      (\<forall>fs'. server decode etag PUBLIC_DIR fs' req = Text 403 ''Forbidden'')) \<and>
   (valid_root PUBLIC_DIR \<longrightarrow>
      (\<forall>p content e. server decode etag PUBLIC_DIR fs req = FileContent p content e \<longrightarrow>
          lies_under PUBLIC_DIR p \<and> fs p = Some (File content)) \<and>
      (\<forall>d u. server decode etag PUBLIC_DIR fs req = DirectoryListing d u \<longrightarrow>
          lies_under PUBLIC_DIR d))"
proof -
  have forbidden: "server decode etag PUBLIC_DIR fs' req = Text 403 ''Forbidden''"
    if "http_method req = ''GET''"
      and "decode (takeWhile (\<lambda>c. c \<noteq> CHR ''?'') (url req)) = Some urlPath"
      and "\<not> prefix PUBLIC_DIR (path_join [PUBLIC_DIR, strip_dotdots (normalize urlPath)])"
    for fs'
    using that by (simp add: server_def)
  have served: "lies_under PUBLIC_DIR p \<and> fs p = Some (File content)"
    if root: "valid_root PUBLIC_DIR"
      and run: "server decode etag PUBLIC_DIR fs req = FileContent p content e"
    for p content e
  proof -
    from run obtain u where u: "decode (takeWhile (\<lambda>c. c \<noteq> CHR ''?'') (url req)) = Some u"
      by (auto simp: server_def split: if_splits option.splits)
    let ?filePath = "path_join [PUBLIC_DIR, strip_dotdots (normalize u)]"
    let ?indexPath = "path_join [?filePath, ''index.html'']"
    from filePath_under [OF root, of u] obtain rest
      where fp: "split_on CHR ''/'' ?filePath = split_on CHR ''/'' PUBLIC_DIR @ rest"
        "''..'' \<notin> set rest" "?filePath \<noteq> []"
      by blast
    from run u consider
        "serveFile etag fs ?filePath req = FileContent p content e"
      | "serveFile etag fs ?indexPath req = FileContent p content e"
      by (auto simp: server_def Let_def split: if_splits option.splits node.splits)
    then show ?thesis
    proof cases
      case 1
      from serveFile_FileContent [OF this] fp show ?thesis
        by (auto intro: lies_underI)
    next
      case 2
      from serveFile_FileContent [OF this] indexPath_under [OF root fp] show ?thesis
        by auto
    qed
  qed
  have listing: "lies_under PUBLIC_DIR d"
    if root: "valid_root PUBLIC_DIR"
      and run: "server decode etag PUBLIC_DIR fs req = DirectoryListing d u'"
    for d u'
  proof -
    from run obtain u where u: "decode (takeWhile (\<lambda>c. c \<noteq> CHR ''?'') (url req)) = Some u"
      by (auto simp: server_def split: if_splits option.splits)
    let ?filePath = "path_join [PUBLIC_DIR, strip_dotdots (normalize u)]"
    from filePath_under [OF root, of u] obtain rest
      where fp: "split_on CHR ''/'' ?filePath = split_on CHR ''/'' PUBLIC_DIR @ rest"
        "''..'' \<notin> set rest"
      by blast
    from run u have "d = ?filePath"
      by (auto simp: server_def Let_def serveFile_not_listing
          split: if_splits option.splits node.splits)
    with fp show ?thesis
      by (auto intro: lies_underI)
  qed
  from forbidden served listing show ?thesis
    by blast
qed

theorem served_files_lie_under_PUBLIC_DIR_witness:
  "valid_root ''/app/public'' \<and>
   server decode_ascii generateETag ''/app/public''
       [''/app/public/etc/passwd'' \<mapsto> File ''secret'']
       \<lparr>http_method = ''GET'', url = ''/%2e%2e/%2e%2e/etc/passwd?x=1'', if_none_match = None\<rparr>
     = FileContent ''/app/public/etc/passwd'' ''secret'' (generateETag ''secret'') \<and>
   lies_under ''/app/public'' ''/app/public/etc/passwd'' \<and>
   server decode_ascii generateETag ''/app/../public'' Map.empty
       \<lparr>http_method = ''GET'', url = ''/x'', if_none_match = None\<rparr>
     = Text 403 ''Forbidden''"
proof -
  let ?fs = "[''/app/public/etc/passwd'' \<mapsto> File ''secret'']"
  let ?req = "\<lparr>http_method = ''GET'', url = ''/%2e%2e/%2e%2e/etc/passwd?x=1'',
      if_none_match = None\<rparr>"
  let ?req2 = "\<lparr>http_method = ''GET'', url = ''/x'', if_none_match = None\<rparr>"
  have root: "valid_root ''/app/public''"
    by code_simp
  have dec: "decode_ascii (takeWhile (\<lambda>c. c \<noteq> CHR ''?'') (url ?req)) = Some ''/../../etc/passwd''"
    by code_simp
  have fp: "path_join [''/app/public'', strip_dotdots (normalize ''/../../etc/passwd'')]
      = ''/app/public/etc/passwd''"
    by code_simp
  have run: "server decode_ascii generateETag ''/app/public'' ?fs ?req
      = FileContent ''/app/public/etc/passwd'' ''secret'' (generateETag ''secret'')"
    unfolding server_def dec
    by (simp add: fp serveFile_def Let_def)
  have m: "http_method ?req2 = ''GET''"
    by simp
  have dec2: "decode_ascii (takeWhile (\<lambda>c. c \<noteq> CHR ''?'') (url ?req2)) = Some ''/x''"
    by code_simp
  have out: "\<not> prefix ''/app/../public''
      (path_join [''/app/../public'', strip_dotdots (normalize ''/x'')])"
    by code_simp
  from served_files_lie_under_PUBLIC_DIR
    [where req = ?req and decode = decode_ascii and etag = generateETag
      and PUBLIC_DIR = "''/app/public''" and fs = ?fs and urlPath = "''/x''"]
    root run
  have under: "lies_under ''/app/public'' ''/app/public/etc/passwd''"
    by blast
  from served_files_lie_under_PUBLIC_DIR
    [where req = ?req2 and decode = decode_ascii and etag = generateETag
      and PUBLIC_DIR = "''/app/../public''" and fs = Map.empty and urlPath = "''/x''"]
    m dec2 out
  have forbidden: "server decode_ascii generateETag ''/app/../public'' Map.empty ?req2
      = Text 403 ''Forbidden''"
    by blast
  from root run under forbidden show ?thesis
    by blast
qed

lemma serveFile_if_none_match:
  "serveFile etag fs path (req\<lparr>if_none_match := h\<rparr>)
     = (case serveFile etag fs path (req\<lparr>if_none_match := None\<rparr>) of
          FileContent p content e \<Rightarrow> if h = Some e then NotModified else FileContent p content e
        | r \<Rightarrow> r)"
  by (auto simp: serveFile_def Let_def split: option.splits node.splits)

text \<open>
  Claim C6, as amended. The programs do hold caching logic. The \<^verbatim>\<open>Cache\<close> class stores a value
  with the expiry \<open>now + ttl\<close>; \<^verbatim>\<open>get\<close> returns the value while the time is not past the
  expiry, and past it deletes the entry and returns \<^verbatim>\<open>null\<close>. The static file server's answer
  depends on \<^verbatim>\<open>If-None-Match\<close> in one way: where it would send a file's content with status
  200, it sends 304 with no body when the header is the content's ETag; every other answer
  is the one given without the header.
\<close>

theorem caching_behaviour:
  "cache_get (cache_set c key val t0) key t
     = (if t > t0 + ttl c
        then (None, c\<lparr>entries := (entries c)(key := None)\<rparr>)
        else (Some val, cache_set c key val t0)) \<and>
   server decode etag PUBLIC_DIR fs (req\<lparr>if_none_match := h\<rparr>)
     = (case server decode etag PUBLIC_DIR fs (req\<lparr>if_none_match := None\<rparr>) of
          FileContent p content e \<Rightarrow> if h = Some e then NotModified else FileContent p content e
        | r \<Rightarrow> r)"
proof -
  have cache: "cache_get (cache_set c key val t0) key t
     = (if t > t0 + ttl c
        then (None, c\<lparr>entries := (entries c)(key := None)\<rparr>)
        else (Some val, cache_set c key val t0))"
    by (simp add: cache_get_def cache_set_def)
  have srv: "server decode etag PUBLIC_DIR fs (req\<lparr>if_none_match := h\<rparr>)
     = (case server decode etag PUBLIC_DIR fs (req\<lparr>if_none_match := None\<rparr>) of
          FileContent p content e \<Rightarrow> if h = Some e then NotModified else FileContent p content e
        | r \<Rightarrow> r)"
    by (simp add: server_def Let_def serveFile_if_none_match [where req = req and h = h]
        split: option.splits node.splits)
  from cache srv show ?thesis
    by blast
qed

theorem caching_behaviour_witness:
  "cache_get (cache_set (Cache 60000) ''k'' (JNum 7) 1000) ''k'' 61000
     = (Some (JNum 7), cache_set (Cache 60000) ''k'' (JNum 7) 1000) \<and>
   fst (cache_get (cache_set (Cache 60000) ''k'' (JNum 7) 1000) ''k'' 61001) = None"
  using caching_behaviour [of "Cache 60000" "''k''" "JNum 7" 1000 61000, THEN conjunct1]
    caching_behaviour [of "Cache 60000" "''k''" "JNum 7" 1000 61001, THEN conjunct1]
  by (simp add: Cache_def)

text \<open>
  Claim C6 as stated fails on both counts. A value cached at time 0 with a time to live of
  30000 is gone at time 30001: \<^verbatim>\<open>get\<close> returns \<^verbatim>\<open>null\<close> and has deleted the entry. And the same
  \<^verbatim>\<open>GET /a.txt\<close> is answered 304 with the file's ETag in \<^verbatim>\<open>If-None-Match\<close> and 200 with the
  content without it.
\<close>

theorem cache_expires_and_etag_gives_304:
  "cache_get (cache_set (Cache 30000) ''data'' (JNum 1) 0) ''data'' 30001
     = (None, Cache 30000) \<and>
   server decode_ascii generateETag ''/app/public'' [''/app/public/a.txt'' \<mapsto> File ''hello'']
       \<lparr>http_method = ''GET'', url = ''/a.txt'',
          if_none_match = Some (generateETag ''hello'')\<rparr>
     = NotModified \<and>
   server decode_ascii generateETag ''/app/public'' [''/app/public/a.txt'' \<mapsto> File ''hello'']
       \<lparr>http_method = ''GET'', url = ''/a.txt'', if_none_match = None\<rparr>
     = FileContent ''/app/public/a.txt'' ''hello'' (generateETag ''hello'')"
proof -
  have cache: "cache_get (cache_set (Cache 30000) ''data'' (JNum 1) 0) ''data'' 30001
     = (None, Cache 30000)"
    by (simp add: cache_get_def cache_set_def Cache_def)
  have dec: "decode_ascii (takeWhile (\<lambda>c. c \<noteq> CHR ''?'') ''/a.txt'') = Some ''/a.txt''"
    by code_simp
  have fp: "path_join [''/app/public'', strip_dotdots (normalize ''/a.txt'')]
      = ''/app/public/a.txt''"
    by code_simp
  have hit: "server decode_ascii generateETag ''/app/public''
       [''/app/public/a.txt'' \<mapsto> File ''hello'']
       \<lparr>http_method = ''GET'', url = ''/a.txt'',
          if_none_match = Some (generateETag ''hello'')\<rparr>
     = NotModified"
    by (simp add: server_def dec fp serveFile_def Let_def del: decode_ascii.simps takeWhile.simps)
  have miss: "server decode_ascii generateETag ''/app/public''
       [''/app/public/a.txt'' \<mapsto> File ''hello'']
       \<lparr>http_method = ''GET'', url = ''/a.txt'', if_none_match = None\<rparr>
     = FileContent ''/app/public/a.txt'' ''hello'' (generateETag ''hello'')"
    by (simp add: server_def dec fp serveFile_def Let_def del: decode_ascii.simps takeWhile.simps)
  from cache hit miss show ?thesis
    by blast
qed

end
